theory Spec2Isabelle
  imports Main "HOL-Library.AList"
begin

section \<open>Shallow embedding of newparp's connection tokens and online state\<close>

text \<open>
  The source is \<^verbatim>\<open>src/newparp/model/user_list.py\<close>: two Python classes,
  \<^verbatim>\<open>ConnectionTokenStore\<close> and \<^verbatim>\<open>UserListStore\<close>, whose methods run Redis
  commands, either through a MULTI/EXEC pipeline or inside a Lua script.  The Redis
  database is the only state; it is passed explicitly and returned updated.  A method
  returns the database together with its result or the exception it raises.

  User ids, chat ids and user numbers are integers.  The Redis client sends an integer
  as its decimal string; that string is what Redis stores, what a Lua script sees in
  ARGV and what a reply brings back.  Socket ids, session ids and tokens are strings.
\<close>

subsection \<open>Python values: exceptions, \<^verbatim>\<open>str\<close> and \<^verbatim>\<open>int\<close>\<close>

text \<open>
  The exceptions a method of the two classes can leave with.  \<open>ResponseError\<close> is what
  the Redis client raises when the server answers a command or a script with an error.
\<close>

datatype error = InvalidToken | PingTimeoutException | ResponseError | ValueError | IndexError

definition digit_chars :: string where
  "digit_chars = ''0123456789''"

fun str_nat :: "nat \<Rightarrow> string" where
  "str_nat n = (if n < 10 then [digit_chars ! n] else str_nat (n div 10) @ [digit_chars ! (n mod 10)])"

declare str_nat.simps [simp del]

text \<open>
  \<^verbatim>\<open>str(i)\<close> for an integer, which is also what the Redis client sends for an integer
  argument and what \<^verbatim>\<open>"%s" % i\<close> formats.
\<close>

definition py_str :: "int \<Rightarrow> string" where
  "py_str i = (if i < 0 then CHR ''-'' # str_nat (nat (- i)) else str_nat (nat i))"

definition is_space :: "char \<Rightarrow> bool" where
  "is_space c = (c \<in> set [CHR '' '', CHR 0x09, CHR 0x0A, CHR 0x0B, CHR 0x0C, CHR 0x0D])"

definition strip :: "string \<Rightarrow> string" where
  "strip s = rev (dropWhile is_space (rev (dropWhile is_space s)))"

definition digit_val :: "char \<Rightarrow> nat option" where
  "digit_val c = (if c \<in> set digit_chars then Some (of_char c - 48) else None)"

fun nat_of_digits :: "nat \<Rightarrow> string \<Rightarrow> nat option" where
  "nat_of_digits acc [] = Some acc"
| "nat_of_digits acc (c # cs) =
     (case digit_val c of None \<Rightarrow> None | Some d \<Rightarrow> nat_of_digits (10 * acc + d) cs)"

text \<open>
  \<^verbatim>\<open>int(s)\<close> for a string: surrounding whitespace is dropped, one sign is allowed,
  and at least one decimal digit must follow; anything else is ValueError (None here).
\<close>

definition py_int :: "string \<Rightarrow> int option" where
  "py_int s =
     (case strip s of
        [] \<Rightarrow> None
      | c # cs \<Rightarrow>
          if c = CHR ''-'' then (if cs = [] then None else map_option (\<lambda>n. - int n) (nat_of_digits 0 cs))
          else if c = CHR ''+'' then (if cs = [] then None else map_option int (nat_of_digits 0 cs))
          else map_option int (nat_of_digits 0 (c # cs)))"

subsection \<open>The Redis database and the commands the source uses\<close>

text \<open>
  One keyspace; a key holds a string, a hash or a set, with an optional time to live.
  A hash is kept as an association list; the order of the list is the order HGETALL and
  HVALS answer in, and a new field goes to its end.  A command on a key of the wrong
  kind answers with an error and changes nothing; DEL, EXISTS, EXPIRE, SET and SETEX
  work on every kind.  A hash or a set that loses its last member is removed, as Redis
  does.
\<close>

datatype rvalue = RString string | RHash "(string \<times> string) list" | RSet "string set"

type_synonym redis = "string \<Rightarrow> (rvalue \<times> nat option) option"

definition redis_get :: "redis \<Rightarrow> string \<Rightarrow> error + string option" where
  "redis_get r k =
     (case r k of
        None \<Rightarrow> Inr None
      | Some (RString s, t) \<Rightarrow> Inr (Some s)
      | Some (RHash h, t) \<Rightarrow> Inl ResponseError
      | Some (RSet m, t) \<Rightarrow> Inl ResponseError)"

definition redis_set :: "redis \<Rightarrow> string \<Rightarrow> string \<Rightarrow> redis" where
  "redis_set r k v = r(k \<mapsto> (RString v, None))"

definition redis_setex :: "redis \<Rightarrow> string \<Rightarrow> nat \<Rightarrow> string \<Rightarrow> redis" where
  "redis_setex r k secs v = r(k \<mapsto> (RString v, Some secs))"

definition redis_del :: "redis \<Rightarrow> string list \<Rightarrow> redis" where
  "redis_del r ks = (\<lambda>k. if k \<in> set ks then None else r k)"

definition redis_expire :: "redis \<Rightarrow> string \<Rightarrow> nat \<Rightarrow> redis" where
  "redis_expire r k secs = (case r k of None \<Rightarrow> r | Some (v, t) \<Rightarrow> r(k \<mapsto> (v, Some secs)))"

definition redis_exists :: "redis \<Rightarrow> string \<Rightarrow> nat" where
  "redis_exists r k = (case r k of None \<Rightarrow> 0 | Some e \<Rightarrow> 1)"

definition redis_hget :: "redis \<Rightarrow> string \<Rightarrow> string \<Rightarrow> error + string option" where
  "redis_hget r k f =
     (case r k of
        None \<Rightarrow> Inr None
      | Some (RHash h, t) \<Rightarrow> Inr (map_of h f)
      | Some (RString s, t) \<Rightarrow> Inl ResponseError
      | Some (RSet m, t) \<Rightarrow> Inl ResponseError)"

definition redis_hmset :: "redis \<Rightarrow> string \<Rightarrow> (string \<times> string) list \<Rightarrow> error + redis" where
  "redis_hmset r k fvs =
     (case r k of
        None \<Rightarrow> Inr (r(k \<mapsto> (RHash (AList.updates (map fst fvs) (map snd fvs) []), None)))
      | Some (RHash h, t) \<Rightarrow> Inr (r(k \<mapsto> (RHash (AList.updates (map fst fvs) (map snd fvs) h), t)))
      | Some (RString s, t) \<Rightarrow> Inl ResponseError
      | Some (RSet m, t) \<Rightarrow> Inl ResponseError)"

definition redis_hset :: "redis \<Rightarrow> string \<Rightarrow> string \<Rightarrow> string \<Rightarrow> error + redis" where
  "redis_hset r k f v = redis_hmset r k [(f, v)]"

definition redis_hdel :: "redis \<Rightarrow> string \<Rightarrow> string \<Rightarrow> error + redis" where
  "redis_hdel r k f =
     (case r k of
        None \<Rightarrow> Inr r
      | Some (RHash h, t) \<Rightarrow>
          (let h' = AList.delete f h
           in Inr (if h' = [] then r(k := None) else r(k \<mapsto> (RHash h', t))))
      | Some (RString s, t) \<Rightarrow> Inl ResponseError
      | Some (RSet m, t) \<Rightarrow> Inl ResponseError)"

definition redis_hgetall :: "redis \<Rightarrow> string \<Rightarrow> error + (string \<times> string) list" where
  "redis_hgetall r k =
     (case r k of
        None \<Rightarrow> Inr []
      | Some (RHash h, t) \<Rightarrow> Inr h
      | Some (RString s, t) \<Rightarrow> Inl ResponseError
      | Some (RSet m, t) \<Rightarrow> Inl ResponseError)"

definition redis_hvals :: "redis \<Rightarrow> string \<Rightarrow> error + string list" where
  "redis_hvals r k =
     (case r k of
        None \<Rightarrow> Inr []
      | Some (RHash h, t) \<Rightarrow> Inr (map snd h)
      | Some (RString s, t) \<Rightarrow> Inl ResponseError
      | Some (RSet m, t) \<Rightarrow> Inl ResponseError)"

text \<open>SADD and SREM answer with the number of members added or removed.\<close>

definition redis_sadd :: "redis \<Rightarrow> string \<Rightarrow> string \<Rightarrow> error + redis \<times> nat" where
  "redis_sadd r k x =
     (case r k of
        None \<Rightarrow> Inr (r(k \<mapsto> (RSet {x}, None)), 1)
      | Some (RSet m, t) \<Rightarrow> if x \<in> m then Inr (r, 0) else Inr (r(k \<mapsto> (RSet (insert x m), t)), 1)
      | Some (RString s, t) \<Rightarrow> Inl ResponseError
      | Some (RHash h, t) \<Rightarrow> Inl ResponseError)"

definition redis_srem :: "redis \<Rightarrow> string \<Rightarrow> string \<Rightarrow> error + redis \<times> nat" where
  "redis_srem r k x =
     (case r k of
        None \<Rightarrow> Inr (r, 0)
      | Some (RSet m, t) \<Rightarrow>
          if x \<in> m
          then Inr (if m - {x} = {} then r(k := None) else r(k \<mapsto> (RSet (m - {x}), t)), 1)
          else Inr (r, 0)
      | Some (RString s, t) \<Rightarrow> Inl ResponseError
      | Some (RHash h, t) \<Rightarrow> Inl ResponseError)"

text \<open>
  Time: after \<open>d\<close> seconds a key whose time to live was at most \<open>d\<close> is gone, and the
  others have that much less left.  No other command of the model lets time pass.
\<close>

definition elapse :: "nat \<Rightarrow> redis \<Rightarrow> redis" where
  "elapse d r =
     (\<lambda>k. case r k of
            None \<Rightarrow> None
          | Some (v, None) \<Rightarrow> Some (v, None)
          | Some (v, Some t) \<Rightarrow> if t \<le> d then None else Some (v, Some (t - d)))"

text \<open>
  Inside a MULTI/EXEC pipeline every queued command runs, also after one of them
  answered with an error; \<open>after\<close> is the database the next command sees.
\<close>

definition after :: "redis \<Rightarrow> error + redis \<Rightarrow> redis" where
  "after r res = (case res of Inl e \<Rightarrow> r | Inr r' \<Rightarrow> r')"

subsection \<open>Lua inside Redis\<close>

text \<open>
  In a script \<^verbatim>\<open>redis.call\<close> turns a nil reply into \<^verbatim>\<open>false\<close>, which is why the
  scripts test \<^verbatim>\<open>if not x\<close>; every string, also the empty one, is true in Lua.
  A command error inside \<^verbatim>\<open>redis.call\<close> ends the script with an error; what the
  script wrote before stays written.

  Redis protects the globals of a script: reading a global variable that was never
  assigned ends the script with an error.  No script of the source assigns a global.
\<close>

definition lua_global :: "string \<Rightarrow> error + string" where
  "lua_global name = Inl ResponseError"

subsection \<open>ConnectionTokenStore\<close>

definition expire_time :: nat where
  "expire_time = 10"

text \<open>The class attributes \<^verbatim>\<open>forward_token_key\<close> and \<^verbatim>\<open>reverse_token_key\<close>, formatted.\<close>

definition forward_token_key :: "string \<Rightarrow> string" where
  "forward_token_key token = ''connection:token:'' @ token"

definition reverse_token_key :: "int \<Rightarrow> int \<Rightarrow> string" where
  "reverse_token_key user_id chat_id = ''connection:user:'' @ py_str user_id @ '':'' @ py_str chat_id"

text \<open>
  \<^verbatim>\<open>create_connection_token_script\<close>, with ARGV = [user_id, chat_id, session_id, token].
  The forward key is built from ARGV[3] and the reverse key holds ARGV[4], as written.
\<close>

definition create_connection_token_script ::
  "redis \<Rightarrow> string \<Rightarrow> string \<Rightarrow> string \<Rightarrow> string \<Rightarrow> redis \<times> (error + unit)" where
  "create_connection_token_script r argv1 argv2 argv3 argv4 =
     (let forward = ''connection:token:'' @ argv3;
          reverse = ''connection:user:'' @ argv1 @ '':'' @ argv2
      in case redis_get r reverse of
           Inl e \<Rightarrow> (r, Inl e)
         | Inr existing_token \<Rightarrow>
             (let r1 = (case existing_token of
                          Some t \<Rightarrow> redis_del r [''connection:token:'' @ t]
                        | None \<Rightarrow> r)
              in case redis_hmset r1 forward
                        [(''user_id'', argv1), (''chat_id'', argv2), (''session_id'', argv3)] of
                   Inl e \<Rightarrow> (r1, Inl e)
                 | Inr r2 \<Rightarrow>
                     (let r3 = redis_expire r2 forward expire_time;
                          r4 = redis_set r3 reverse argv4;
                          r5 = redis_expire r4 reverse expire_time
                      in (r5, Inr ()))))"

text \<open>
  \<^verbatim>\<open>create_connection_token\<close>.  The token is \<^verbatim>\<open>str(uuid.uuid4())\<close>, a random
  value: it is an argument here.
\<close>

definition create_connection_token ::
  "redis \<Rightarrow> int \<Rightarrow> int \<Rightarrow> string \<Rightarrow> string \<Rightarrow> redis \<times> (error + string)" where
  "create_connection_token r user_id chat_id session_id token =
     (case create_connection_token_script r (py_str user_id) (py_str chat_id) session_id token of
        (r', Inl e) \<Rightarrow> (r', Inl e)
      | (r', Inr u) \<Rightarrow> (r', Inr token))"

text \<open>
  \<^verbatim>\<open>use_connection_token_script\<close>, with ARGV = [token].  The third HGET is assigned
  to a second local named \<^verbatim>\<open>chat_id\<close>, which hides the first; \<^verbatim>\<open>session_id\<close> in
  the last line is therefore a global that nothing assigned.  Concatenating
  \<^verbatim>\<open>false\<close> (a missing field) is a Lua error.
\<close>

definition use_connection_token_script :: "redis \<Rightarrow> string \<Rightarrow> redis \<times> (error + string list)" where
  "use_connection_token_script r argv1 =
     (case redis_hget r (''connection:token:'' @ argv1) ''user_id'' of
        Inl e \<Rightarrow> (r, Inl e)
      | Inr user_id \<Rightarrow>
     (case redis_hget r (''connection:token:'' @ argv1) ''chat_id'' of
        Inl e \<Rightarrow> (r, Inl e)
      | Inr chat_id_hidden \<Rightarrow>
     (case redis_hget r (''connection:token:'' @ argv1) ''session_id'' of
        Inl e \<Rightarrow> (r, Inl e)
      | Inr chat_id \<Rightarrow>
     (case user_id of
        None \<Rightarrow> (r, Inr [])
      | Some uid \<Rightarrow>
     (case chat_id of
        None \<Rightarrow> (r, Inl ResponseError)
      | Some cid \<Rightarrow>
          (let r1 = redis_del r [''connection:token:'' @ argv1,
                                 ''connection:user:'' @ uid @ '':'' @ cid]
           in case lua_global ''session_id'' of
                Inl e \<Rightarrow> (r1, Inl e)
              | Inr session_id \<Rightarrow> (r1, Inr [uid, cid, session_id])))))))"

text \<open>
  \<^verbatim>\<open>use_connection_token\<close>.  \<open>uuid_parses\<close> stands for the library call
  \<^verbatim>\<open>uuid.UUID(token)\<close>: it is true where the call returns and false where it raises
  ValueError.  The last line indexes the reply: a reply shorter than three entries is
  IndexError, an entry that is not a number is ValueError.
\<close>

definition use_connection_token ::
  "(string \<Rightarrow> bool) \<Rightarrow> redis \<Rightarrow> string \<Rightarrow> redis \<times> (error + int \<times> int \<times> string)" where
  "use_connection_token uuid_parses r token =
     (if \<not> uuid_parses token then (r, Inl InvalidToken)
      else case use_connection_token_script r token of
             (r', Inl e) \<Rightarrow> (r', Inl e)
           | (r', Inr data) \<Rightarrow>
               (case data of
                  [] \<Rightarrow> (r', Inl InvalidToken)
                | d0 # rest0 \<Rightarrow>
               (case py_int d0 of
                  None \<Rightarrow> (r', Inl ValueError)
                | Some uid \<Rightarrow>
               (case rest0 of
                  [] \<Rightarrow> (r', Inl IndexError)
                | d1 # rest1 \<Rightarrow>
               (case py_int d1 of
                  None \<Rightarrow> (r', Inl ValueError)
                | Some cid \<Rightarrow>
               (case rest1 of
                  [] \<Rightarrow> (r', Inl IndexError)
                | d2 # rest2 \<Rightarrow> (r', Inr (uid, cid, d2))))))))"

text \<open>Two values of \<^verbatim>\<open>str(uuid.uuid4())\<close>, for the examples.\<close>

definition token_a :: string where
  "token_a = ''3f2b8c1e-5d4a-4e6b-9c7d-1a2b3c4d5e6f''"

definition token_b :: string where
  "token_b = ''7a1c9e2d-0b3f-4c5a-8d6e-2f4b6a8c0e1d''"

subsection \<open>UserListStore\<close>

text \<open>The three keys of a chat, as \<^verbatim>\<open>__init__\<close> formats them.\<close>

definition online_key :: "int \<Rightarrow> string" where
  "online_key chat_id = ''chat:'' @ py_str chat_id @ '':online''"

definition session_key :: "int \<Rightarrow> string \<Rightarrow> string" where
  "session_key chat_id socket_id = ''chat:'' @ py_str chat_id @ '':online:'' @ socket_id"

definition typing_key :: "int \<Rightarrow> string" where
  "typing_key chat_id = ''chat:'' @ py_str chat_id @ '':typing''"

text \<open>
  \<^verbatim>\<open>json.dumps({"last_online": str(time.time()), "chat_id": self.chat_id})\<close>; the clock
  reading \<^verbatim>\<open>str(time.time())\<close> is the argument \<open>now\<close>.  The two members are
  written here in the order of the source; nothing below depends on the text.
\<close>

definition usermeta_json :: "string \<Rightarrow> int \<Rightarrow> string" where
  "usermeta_json now chat_id =
     ''{'' @ [CHR 0x22] @ ''last_online'' @ [CHR 0x22] @ '': '' @ [CHR 0x22] @ now @ [CHR 0x22]
       @ '', '' @ [CHR 0x22] @ ''chat_id'' @ [CHR 0x22] @ '': '' @ py_str chat_id @ ''}''"

text \<open>
  \<^verbatim>\<open>socket_join\<close>: four commands in one pipeline.  \<^verbatim>\<open>execute\<close> raises the first
  error among the replies after all four have run; otherwise the method compares
  \<^verbatim>\<open>str(user_id)\<close> with the HVALS reply, which was taken before the writes.
\<close>

definition socket_join ::
  "redis \<Rightarrow> int \<Rightarrow> string \<Rightarrow> string \<Rightarrow> int \<Rightarrow> string \<Rightarrow> redis \<times> (error + bool)" where
  "socket_join r chat_id socket_id session_id user_id now =
     (let result0 = redis_hvals r (online_key chat_id);
          result1 = redis_hset r ''queue:usermeta'' (''chatuser:'' @ py_str user_id)
                      (usermeta_json now chat_id);
          r1 = after r result1;
          result2 = redis_hset r1 (online_key chat_id) socket_id (py_str user_id);
          r2 = after r1 result2;
          r3 = redis_setex r2 (session_key chat_id socket_id) 30 session_id
      in case result0 of
           Inl e \<Rightarrow> (r3, Inl e)
         | Inr user_ids \<Rightarrow>
        (case result1 of
           Inl e \<Rightarrow> (r3, Inl e)
         | Inr u1 \<Rightarrow>
        (case result2 of
           Inl e \<Rightarrow> (r3, Inl e)
         | Inr u2 \<Rightarrow> (r3, Inr (py_str user_id \<notin> set user_ids)))))"

text \<open>\<^verbatim>\<open>socket_ping_script\<close>, with ARGV = [chat_id, socket_id].\<close>

definition socket_ping_script :: "redis \<Rightarrow> string \<Rightarrow> string \<Rightarrow> redis \<times> (error + bool)" where
  "socket_ping_script r argv1 argv2 =
     (case redis_hget r (''chat:'' @ argv1 @ '':online'') argv2 of
        Inl e \<Rightarrow> (r, Inl e)
      | Inr None \<Rightarrow> (r, Inr False)
      | Inr (Some user_id_from_chat) \<Rightarrow>
     (case redis_get r (''chat:'' @ argv1 @ '':online:'' @ argv2) of
        Inl e \<Rightarrow> (r, Inl e)
      | Inr None \<Rightarrow> (r, Inr False)
      | Inr (Some session_id) \<Rightarrow>
          (redis_expire r (''chat:'' @ argv1 @ '':online:'' @ argv2) 30, Inr True)))"

definition socket_ping :: "redis \<Rightarrow> int \<Rightarrow> string \<Rightarrow> redis \<times> (error + unit)" where
  "socket_ping r chat_id socket_id =
     (case socket_ping_script r (py_str chat_id) socket_id of
        (r', Inl e) \<Rightarrow> (r', Inl e)
      | (r', Inr result) \<Rightarrow>
          if \<not> result then (r', Inl PingTimeoutException) else (r', Inr ()))"

text \<open>
  \<^verbatim>\<open>socket_disconnect\<close>: five commands in one pipeline.  \<^verbatim>\<open>not user_id\<close> holds for
  None and for the empty string.
\<close>

definition socket_disconnect ::
  "redis \<Rightarrow> int \<Rightarrow> string \<Rightarrow> int \<Rightarrow> redis \<times> (error + bool)" where
  "socket_disconnect r chat_id socket_id user_number =
     (let result0 = redis_hget r (online_key chat_id) socket_id;
          result1 = redis_hdel r (online_key chat_id) socket_id;
          r1 = after r result1;
          r2 = redis_del r1 [session_key chat_id socket_id];
          result3 = redis_srem r2 (typing_key chat_id) (py_str user_number);
          r3 = after r2 (map_sum id fst result3);
          result4 = redis_hvals r3 (online_key chat_id)
      in case result0 of
           Inl e \<Rightarrow> (r3, Inl e)
         | Inr user_id \<Rightarrow>
        (case result1 of
           Inl e \<Rightarrow> (r3, Inl e)
         | Inr u1 \<Rightarrow>
        (case result3 of
           Inl e \<Rightarrow> (r3, Inl e)
         | Inr u3 \<Rightarrow>
        (case result4 of
           Inl e \<Rightarrow> (r3, Inl e)
         | Inr new_user_ids \<Rightarrow>
        (case user_id of
           None \<Rightarrow> (r3, Inr False)
         | Some uid \<Rightarrow>
             if uid = [] then (r3, Inr False)
             else (r3, Inr (uid \<notin> set new_user_ids)))))))"

text \<open>
  \<^verbatim>\<open>user_disconnect_script\<close>, with ARGV = [chat_id, user_id, user_number].  The loop
  walks the HGETALL reply taken at the start, one (socket_id, user_id) pair per step.
\<close>

fun user_disconnect_loop ::
  "redis \<Rightarrow> string \<Rightarrow> string \<Rightarrow> (string \<times> string) list \<Rightarrow> bool \<Rightarrow> redis \<times> (error + bool)" where
  "user_disconnect_loop r argv1 argv2 [] had_online_socket = (r, Inr had_online_socket)"
| "user_disconnect_loop r argv1 argv2 ((socket_id, user_id) # online_list) had_online_socket =
     (if user_id = argv2
      then (case redis_hdel r (''chat:'' @ argv1 @ '':online'') socket_id of
              Inl e \<Rightarrow> (r, Inl e)
            | Inr r1 \<Rightarrow>
                user_disconnect_loop
                  (redis_del r1 [''chat:'' @ argv1 @ '':online:'' @ socket_id])
                  argv1 argv2 online_list True)
      else user_disconnect_loop r argv1 argv2 online_list had_online_socket)"

definition user_disconnect_script ::
  "redis \<Rightarrow> string \<Rightarrow> string \<Rightarrow> string \<Rightarrow> redis \<times> (error + bool)" where
  "user_disconnect_script r argv1 argv2 argv3 =
     (case redis_hgetall r (''chat:'' @ argv1 @ '':online'') of
        Inl e \<Rightarrow> (r, Inl e)
      | Inr online_list \<Rightarrow>
          if length online_list = 0 then (r, Inr False)
          else (case user_disconnect_loop r argv1 argv2 online_list False of
                  (r1, Inl e) \<Rightarrow> (r1, Inl e)
                | (r1, Inr had_online_socket) \<Rightarrow>
                    (case redis_srem r1 (''chat:'' @ argv1 @ '':typing'') argv3 of
                       Inl e \<Rightarrow> (r1, Inl e)
                     | Inr (r2, n) \<Rightarrow> (r2, Inr had_online_socket))))"

definition user_disconnect :: "redis \<Rightarrow> int \<Rightarrow> int \<Rightarrow> int \<Rightarrow> redis \<times> (error + bool)" where
  "user_disconnect r chat_id user_id user_number =
     user_disconnect_script r (py_str chat_id) (py_str user_id) (py_str user_number)"

text \<open>\<^verbatim>\<open>user_start_typing\<close> and \<^verbatim>\<open>user_stop_typing\<close>: \<^verbatim>\<open>bool\<close> of the reply.\<close>

definition user_start_typing :: "redis \<Rightarrow> int \<Rightarrow> int \<Rightarrow> redis \<times> (error + bool)" where
  "user_start_typing r chat_id user_number =
     (case redis_sadd r (typing_key chat_id) (py_str user_number) of
        Inl e \<Rightarrow> (r, Inl e)
      | Inr (r', n) \<Rightarrow> (r', Inr (n \<noteq> 0)))"

definition user_stop_typing :: "redis \<Rightarrow> int \<Rightarrow> int \<Rightarrow> redis \<times> (error + bool)" where
  "user_stop_typing r chat_id user_number =
     (case redis_srem r (typing_key chat_id) (py_str user_number) of
        Inl e \<Rightarrow> (r, Inl e)
      | Inr (r', n) \<Rightarrow> (r', Inr (n \<noteq> 0)))"

text \<open>
  \<^verbatim>\<open>inconsistent_entries_script\<close>, with ARGV = [chat_id]: the pairs of the HGETALL
  reply whose session key does not exist.
\<close>

fun inconsistent_loop :: "redis \<Rightarrow> string \<Rightarrow> (string \<times> string) list \<Rightarrow> (string \<times> string) list" where
  "inconsistent_loop r argv1 [] = []"
| "inconsistent_loop r argv1 ((socket_id, user_id) # online_list) =
     (if redis_exists r (''chat:'' @ argv1 @ '':online:'' @ socket_id) = 0
      then (socket_id, user_id) # inconsistent_loop r argv1 online_list
      else inconsistent_loop r argv1 online_list)"

definition inconsistent_entries_script ::
  "redis \<Rightarrow> string \<Rightarrow> redis \<times> (error + (string \<times> string) list)" where
  "inconsistent_entries_script r argv1 =
     (case redis_hgetall r (''chat:'' @ argv1 @ '':online'') of
        Inl e \<Rightarrow> (r, Inl e)
      | Inr online_list \<Rightarrow>
          if length online_list = 0 then (r, Inr [])
          else (r, Inr (inconsistent_loop r argv1 online_list)))"

text \<open>The list comprehension of \<^verbatim>\<open>inconsistent_entries\<close>: \<^verbatim>\<open>(_[0], int(_[1]))\<close>.\<close>

fun entries_with_int :: "(string \<times> string) list \<Rightarrow> error + (string \<times> int) list" where
  "entries_with_int [] = Inr []"
| "entries_with_int ((socket_id, user_id) # rest) =
     (case py_int user_id of
        None \<Rightarrow> Inl ValueError
      | Some n \<Rightarrow>
          (case entries_with_int rest of
             Inl e \<Rightarrow> Inl e
           | Inr out \<Rightarrow> Inr ((socket_id, n) # out)))"

definition inconsistent_entries :: "redis \<Rightarrow> int \<Rightarrow> redis \<times> (error + (string \<times> int) list)" where
  "inconsistent_entries r chat_id =
     (case inconsistent_entries_script r (py_str chat_id) of
        (r', Inl e) \<Rightarrow> (r', Inl e)
      | (r', Inr entries) \<Rightarrow> (r', entries_with_int entries))"

subsection \<open>Reading a chat's state\<close>

text \<open>
  What the theorems below say about a database is said through these readers: the
  online map of a chat (socket id to user id, as stored), the socket ids a user id
  owns in it, and the typing set.  A key that is absent reads as empty.
\<close>

definition hash_or_absent :: "redis \<Rightarrow> string \<Rightarrow> bool" where
  "hash_or_absent r k =
     (case r k of
        None \<Rightarrow> True
      | Some (RHash h, t) \<Rightarrow> True
      | Some (RString s, t) \<Rightarrow> False
      | Some (RSet m, t) \<Rightarrow> False)"

definition set_or_absent :: "redis \<Rightarrow> string \<Rightarrow> bool" where
  "set_or_absent r k =
     (case r k of
        None \<Rightarrow> True
      | Some (RSet m, t) \<Rightarrow> True
      | Some (RString s, t) \<Rightarrow> False
      | Some (RHash h, t) \<Rightarrow> False)"

definition string_or_absent :: "redis \<Rightarrow> string \<Rightarrow> bool" where
  "string_or_absent r k =
     (case r k of
        None \<Rightarrow> True
      | Some (RString s, t) \<Rightarrow> True
      | Some (RHash h, t) \<Rightarrow> False
      | Some (RSet m, t) \<Rightarrow> False)"

definition online_list :: "redis \<Rightarrow> int \<Rightarrow> (string \<times> string) list" where
  "online_list r chat_id =
     (case r (online_key chat_id) of
        None \<Rightarrow> []
      | Some (RHash h, t) \<Rightarrow> h
      | Some (RString s, t) \<Rightarrow> []
      | Some (RSet m, t) \<Rightarrow> [])"

definition typing_set :: "redis \<Rightarrow> int \<Rightarrow> string set" where
  "typing_set r chat_id =
     (case r (typing_key chat_id) of
        None \<Rightarrow> {}
      | Some (RSet m, t) \<Rightarrow> m
      | Some (RString s, t) \<Rightarrow> {}
      | Some (RHash h, t) \<Rightarrow> {})"

definition handles_of :: "redis \<Rightarrow> int \<Rightarrow> string \<Rightarrow> string list" where
  "handles_of r chat_id u = map fst (filter (\<lambda>(h, v). v = u) (online_list r chat_id))"

section \<open>Properties\<close>

subsection \<open>Keys and numerals\<close>

lemma keys_distinct [simp]:
  "online_key c \<noteq> session_key c h" "session_key c h \<noteq> online_key c"
  "online_key c \<noteq> typing_key c" "typing_key c \<noteq> online_key c"
  "typing_key c \<noteq> session_key c h" "session_key c h \<noteq> typing_key c"
  "online_key c \<noteq> ''queue:usermeta''" "''queue:usermeta'' \<noteq> online_key c"
  "session_key c h \<noteq> ''queue:usermeta''" "''queue:usermeta'' \<noteq> session_key c h"
  "typing_key c \<noteq> ''queue:usermeta''" "''queue:usermeta'' \<noteq> typing_key c"
  by (simp_all add: online_key_def session_key_def typing_key_def)

lemma session_key_inj [simp]: "(session_key c h = session_key c h') = (h = h')"
  by (simp add: session_key_def)

lemma str_nat_nonempty: "str_nat n \<noteq> []"
  by (subst str_nat.simps) simp

lemma py_str_nonempty: "py_str i \<noteq> []"
  by (simp add: py_str_def str_nat_nonempty)

lemma py_str_small [simp]: "py_str 1 = ''1''" "py_str 3 = ''3''" "py_str 5 = ''5''" "py_str 9 = ''9''"
  by (simp_all add: py_str_def str_nat.simps digit_chars_def)

text \<open>\<^verbatim>\<open>int(str(i))\<close> is \<open>i\<close>, so different numbers are stored as different strings.\<close>

lemma digit_val_digit: "d < 10 \<Longrightarrow> digit_val (digit_chars ! d) = Some d"
proof -
  assume "d < 10"
  then have "d \<in> {0, 1, 2, 3, 4, 5, 6, 7, 8, 9}"
    by auto
  then show ?thesis
    by (auto simp: digit_val_def digit_chars_def)
qed

lemma digit_not_space: "d < 10 \<Longrightarrow> \<not> is_space (digit_chars ! d)"
proof -
  assume "d < 10"
  then have "d \<in> {0, 1, 2, 3, 4, 5, 6, 7, 8, 9}"
    by auto
  then show ?thesis
    by (auto simp: is_space_def digit_chars_def)
qed

lemma digit_not_sign: "d < 10 \<Longrightarrow> digit_chars ! d \<noteq> CHR ''-'' \<and> digit_chars ! d \<noteq> CHR ''+''"
proof -
  assume "d < 10"
  then have "d \<in> {0, 1, 2, 3, 4, 5, 6, 7, 8, 9}"
    by auto
  then show ?thesis
    by (auto simp: digit_chars_def)
qed

lemma nat_of_digits_snoc:
  "nat_of_digits acc (xs @ [c]) =
     (case nat_of_digits acc xs of
        None \<Rightarrow> None
      | Some m \<Rightarrow> (case digit_val c of None \<Rightarrow> None | Some d \<Rightarrow> Some (10 * m + d)))"
  by (induction xs arbitrary: acc) (auto split: option.splits)

lemma nat_of_digits_str_nat: "nat_of_digits 0 (str_nat n) = Some n"
proof (induction n rule: str_nat.induct)
  case (1 n)
  show ?case
  proof (cases "n < 10")
    case True
    then show ?thesis
      by (subst str_nat.simps) (simp add: digit_val_digit)
  next
    case False
    then show ?thesis
      using "1.IH" by (subst str_nat.simps) (simp add: nat_of_digits_snoc digit_val_digit)
  qed
qed

lemma str_nat_ends:
  "str_nat n \<noteq> [] \<and> \<not> is_space (hd (str_nat n)) \<and> \<not> is_space (last (str_nat n))
   \<and> hd (str_nat n) \<noteq> CHR ''-'' \<and> hd (str_nat n) \<noteq> CHR ''+''"
proof (induction n rule: str_nat.induct)
  case (1 n)
  show ?case
  proof (cases "n < 10")
    case True
    then show ?thesis
      by (subst (1 2 3 4 5) str_nat.simps) (simp add: digit_not_space digit_not_sign)
  next
    case False
    then show ?thesis
      using "1.IH" by (subst (1 2 3 4 5) str_nat.simps) (simp add: digit_not_space)
  qed
qed

lemma strip_id: "s \<noteq> [] \<Longrightarrow> \<not> is_space (hd s) \<Longrightarrow> \<not> is_space (last s) \<Longrightarrow> strip s = s"
  by (cases s) (auto simp: strip_def hd_rev dropWhile_eq_self_iff split: if_splits)

lemma py_int_py_str: "py_int (py_str i) = Some i"
proof (cases "i < 0")
  case False
  obtain x xs where c: "str_nat (nat i) = x # xs"
    using str_nat_ends [of "nat i"] by (cases "str_nat (nat i)") auto
  have s: "strip (x # xs) = x # xs"
    using str_nat_ends [of "nat i"] strip_id [of "str_nat (nat i)"] by (simp add: c)
  have "x \<noteq> CHR ''-''" "x \<noteq> CHR ''+''"
    using str_nat_ends [of "nat i"] by (simp_all add: c)
  moreover have "nat_of_digits 0 (x # xs) = Some (nat i)"
    using nat_of_digits_str_nat [of "nat i"] by (simp only: c)
  ultimately show ?thesis
    using False by (simp add: py_int_def py_str_def s c del: nat_of_digits.simps)
next
  case True
  let ?m = "nat (- i)"
  have e: "str_nat ?m \<noteq> []" "\<not> is_space (last (str_nat ?m))"
    using str_nat_ends [of ?m] by simp_all
  have "\<not> is_space CHR ''-''"
    by (simp add: is_space_def)
  then have s: "strip (CHR ''-'' # str_nat ?m) = CHR ''-'' # str_nat ?m"
    using e by (simp add: strip_id)
  show ?thesis
    using True e by (simp add: py_int_def py_str_def s nat_of_digits_str_nat)
qed

lemma py_str_inj: "(py_str i = py_str j) = (i = j)"
  by (metis py_int_py_str option.inject)

subsection \<open>Typing\<close>

text \<open>
  C9.  In a chat whose typing key is absent or holds a set: \<open>user_start_typing\<close>
  returns True exactly when the number was not in the typing set, and the number is in
  the set afterwards; \<open>user_stop_typing\<close> returns True exactly when the number was in
  the set, and it is not afterwards; a call that returns False leaves the whole database
  as it was; and stopping a second time returns False.
\<close>

theorem typing_toggles:
  assumes "set_or_absent r (typing_key c)"
  shows "snd (user_start_typing r c n) = Inr (py_str n \<notin> typing_set r c)
     \<and> typing_set (fst (user_start_typing r c n)) c = insert (py_str n) (typing_set r c)
     \<and> snd (user_stop_typing r c n) = Inr (py_str n \<in> typing_set r c)
     \<and> typing_set (fst (user_stop_typing r c n)) c = typing_set r c - {py_str n}
     \<and> (py_str n \<in> typing_set r c \<longrightarrow> fst (user_start_typing r c n) = r)
     \<and> (py_str n \<notin> typing_set r c \<longrightarrow> fst (user_stop_typing r c n) = r)
     \<and> snd (user_stop_typing (fst (user_stop_typing r c n)) c n) = Inr False"
  using assms
  by (auto simp: set_or_absent_def typing_set_def user_start_typing_def user_stop_typing_def
      redis_sadd_def redis_srem_def split: option.splits rvalue.splits)

text \<open>
  The scenario of the specification, from the theorem at the empty database and at the
  database after the first call: start returns True, then False, the set is {3}, stop
  returns True and the set is empty again.
\<close>

theorem typing_toggles_witness:
  "set_or_absent Map.empty (typing_key 1)
   \<and> set_or_absent (fst (user_start_typing Map.empty 1 3)) (typing_key 1)
   \<and> snd (user_start_typing Map.empty 1 3) = Inr True
   \<and> snd (user_start_typing (fst (user_start_typing Map.empty 1 3)) 1 3) = Inr False
   \<and> typing_set (fst (user_start_typing Map.empty 1 3)) 1 = {''3''}
   \<and> snd (user_stop_typing (fst (user_start_typing Map.empty 1 3)) 1 3) = Inr True
   \<and> typing_set (fst (user_stop_typing (fst (user_start_typing Map.empty 1 3)) 1 3)) 1 = {}
   \<and> snd (user_stop_typing Map.empty 1 3) = Inr False
   \<and> fst (user_stop_typing Map.empty 1 3) = Map.empty"
proof -
  have e: "set_or_absent Map.empty (typing_key 1)"
    by (simp add: set_or_absent_def)
  have s: "set_or_absent (fst (user_start_typing Map.empty 1 3)) (typing_key 1)"
    by (simp add: set_or_absent_def user_start_typing_def redis_sadd_def)
  have t0: "typing_set Map.empty 1 = {}"
    by (simp add: typing_set_def)
  show ?thesis
    using e s typing_toggles [OF e, of 3] typing_toggles [OF s, of 3]
    by (simp add: t0)
qed

subsection \<open>Commands on a key of the right kind\<close>

lemma delete_absent: "map_of es k = None \<Longrightarrow> AList.delete k es = es"
  by (simp add: map_of_eq_None_iff delete_id)

lemma online_list_cong: "r' (online_key c) = r (online_key c) \<Longrightarrow> online_list r' c = online_list r c"
  by (simp add: online_list_def)

lemma typing_set_cong: "r' (typing_key c) = r (typing_key c) \<Longrightarrow> typing_set r' c = typing_set r c"
  by (simp add: typing_set_def)

lemma hash_or_absent_cong: "r' k = r k \<Longrightarrow> hash_or_absent r' k = hash_or_absent r k"
  by (simp add: hash_or_absent_def)

lemma set_or_absent_cong: "r' k = r k \<Longrightarrow> set_or_absent r' k = set_or_absent r k"
  by (simp add: set_or_absent_def)

lemma hget_online: "hash_or_absent r (online_key c) \<Longrightarrow>
    redis_hget r (online_key c) f = Inr (map_of (online_list r c) f)"
  by (simp add: hash_or_absent_def redis_hget_def online_list_def split: option.splits prod.splits rvalue.splits)

lemma hvals_online: "hash_or_absent r (online_key c) \<Longrightarrow>
    redis_hvals r (online_key c) = Inr (map snd (online_list r c))"
  by (simp add: hash_or_absent_def redis_hvals_def online_list_def split: option.splits prod.splits rvalue.splits)

lemma hgetall_online: "hash_or_absent r (online_key c) \<Longrightarrow>
    redis_hgetall r (online_key c) = Inr (online_list r c)"
  by (simp add: hash_or_absent_def redis_hgetall_def online_list_def split: option.splits prod.splits rvalue.splits)

lemma hdel_ok: "hash_or_absent r k \<Longrightarrow> redis_hdel r k f = Inr (after r (redis_hdel r k f))"
  by (simp add: hash_or_absent_def redis_hdel_def after_def Let_def split: option.splits prod.splits rvalue.splits)

lemma hdel_other: "k' \<noteq> k \<Longrightarrow> after r (redis_hdel r k f) k' = r k'"
  by (simp add: redis_hdel_def after_def Let_def split: option.splits prod.splits rvalue.splits)

lemma hdel_online: "hash_or_absent r (online_key c) \<Longrightarrow>
    online_list (after r (redis_hdel r (online_key c) f)) c = AList.delete f (online_list r c)"
  by (simp add: hash_or_absent_def redis_hdel_def after_def online_list_def Let_def
      split: option.splits prod.splits rvalue.splits)

lemma hdel_hash: "hash_or_absent r k \<Longrightarrow> hash_or_absent (after r (redis_hdel r k f)) k"
  by (simp add: hash_or_absent_def redis_hdel_def after_def Let_def split: option.splits prod.splits rvalue.splits)

lemma del_in: "k \<in> set ks \<Longrightarrow> redis_del r ks k = None"
  by (simp add: redis_del_def)

lemma del_other: "k \<notin> set ks \<Longrightarrow> redis_del r ks k = r k"
  by (simp add: redis_del_def)

lemma srem_ok: "set_or_absent r k \<Longrightarrow>
    redis_srem r k x = Inr (after r (map_sum id fst (redis_srem r k x)),
                            if x \<in> (case r k of Some (RSet m, t) \<Rightarrow> m | _ \<Rightarrow> {}) then 1 else 0)"
  by (simp add: set_or_absent_def redis_srem_def after_def split: option.splits prod.splits rvalue.splits)

lemma srem_other: "k' \<noteq> k \<Longrightarrow> after r (map_sum id fst (redis_srem r k x)) k' = r k'"
  by (simp add: redis_srem_def after_def split: option.splits prod.splits rvalue.splits)

lemma srem_typing: "set_or_absent r (typing_key c) \<Longrightarrow>
    typing_set (after r (map_sum id fst (redis_srem r (typing_key c) x))) c = typing_set r c - {x}"
  by (auto simp: set_or_absent_def redis_srem_def after_def typing_set_def
      split: option.splits prod.splits rvalue.splits)

subsection \<open>Leaving with one socket\<close>

text \<open>
  What \<open>socket_disconnect\<close> writes does not depend on the replies: the database it
  leaves is the same in every branch.
\<close>

lemma sd_fst:
  "fst (socket_disconnect r c h un) =
     after (redis_del (after r (redis_hdel r (online_key c) h)) [session_key c h])
       (map_sum id fst
         (redis_srem (redis_del (after r (redis_hdel r (online_key c) h)) [session_key c h])
            (typing_key c) (py_str un)))"
  by (cases "redis_hget r (online_key c) h"; cases "redis_hdel r (online_key c) h";
      cases "redis_srem (redis_del (after r (redis_hdel r (online_key c) h)) [session_key c h])
            (typing_key c) (py_str un)")
     (simp_all add: socket_disconnect_def Let_def split: sum.split option.split)

lemma sd_session: "fst (socket_disconnect r c h un) (session_key c h) = None"
  by (simp add: sd_fst srem_other del_in)

lemma sd_frame:
  "k \<noteq> online_key c \<Longrightarrow> k \<noteq> typing_key c \<Longrightarrow> k \<noteq> session_key c h \<Longrightarrow>
     fst (socket_disconnect r c h un) k = r k"
  by (simp add: sd_fst srem_other del_other hdel_other)

lemma sd_online:
  assumes "hash_or_absent r (online_key c)"
  shows "online_list (fst (socket_disconnect r c h un)) c = AList.delete h (online_list r c)"
proof -
  have "fst (socket_disconnect r c h un) (online_key c) = after r (redis_hdel r (online_key c) h) (online_key c)"
    by (simp add: sd_fst srem_other del_other)
  then have "online_list (fst (socket_disconnect r c h un)) c = online_list (after r (redis_hdel r (online_key c) h)) c"
    by (rule online_list_cong)
  then show ?thesis
    by (simp add: hdel_online assms)
qed

lemma sd_hash:
  assumes "hash_or_absent r (online_key c)"
  shows "hash_or_absent (fst (socket_disconnect r c h un)) (online_key c)"
proof -
  have "fst (socket_disconnect r c h un) (online_key c) = after r (redis_hdel r (online_key c) h) (online_key c)"
    by (simp add: sd_fst srem_other del_other)
  then show ?thesis
    using hdel_hash [OF assms, of h] by (simp add: hash_or_absent_def)
qed

lemma sd_typing:
  assumes "set_or_absent r (typing_key c)"
  shows "typing_set (fst (socket_disconnect r c h un)) c = typing_set r c - {py_str un}"
proof -
  let ?r2 = "redis_del (after r (redis_hdel r (online_key c) h)) [session_key c h]"
  have k: "?r2 (typing_key c) = r (typing_key c)"
    by (simp add: del_other hdel_other)
  then have s: "set_or_absent ?r2 (typing_key c)"
    using assms by (simp add: set_or_absent_def)
  have "typing_set (fst (socket_disconnect r c h un)) c = typing_set ?r2 c - {py_str un}"
    unfolding sd_fst by (rule srem_typing [OF s])
  also have "typing_set ?r2 c = typing_set r c"
    using k by (rule typing_set_cong)
  finally show ?thesis .
qed

lemma after_Inr: "after r (Inr x) = x"
  by (simp add: after_def)

lemma sd_snd:
  assumes ho: "hash_or_absent r (online_key c)" and st: "set_or_absent r (typing_key c)"
  shows "snd (socket_disconnect r c h un) =
     Inr (case map_of (online_list r c) h of
            None \<Rightarrow> False
          | Some u \<Rightarrow> u \<noteq> [] \<and> u \<notin> set (map snd (AList.delete h (online_list r c))))"
proof -
  define r1 where "r1 = after r (redis_hdel r (online_key c) h)"
  define r2 where "r2 = redis_del r1 [session_key c h]"
  define r3 where "r3 = after r2 (map_sum id fst (redis_srem r2 (typing_key c) (py_str un)))"
  have k: "r2 (typing_key c) = r (typing_key c)"
    by (simp add: r2_def r1_def del_other hdel_other)
  then have s: "set_or_absent r2 (typing_key c)"
    using st by (simp add: set_or_absent_def)
  have r3: "r3 = fst (socket_disconnect r c h un)"
    by (simp add: sd_fst r3_def r2_def r1_def)
  have a: "redis_hget r (online_key c) h = Inr (map_of (online_list r c) h)"
    by (rule hget_online [OF ho])
  have b: "redis_hdel r (online_key c) h = Inr r1"
    unfolding r1_def by (rule hdel_ok [OF ho])
  obtain n where d: "redis_srem r2 (typing_key c) (py_str un) = Inr (r3, n)"
    unfolding r3_def using srem_ok [OF s] by blast
  have e: "redis_hvals r3 (online_key c) = Inr (map snd (AList.delete h (online_list r c)))"
    unfolding r3 using hvals_online [OF sd_hash [OF ho]] sd_online [OF ho] by simp
  have "socket_disconnect r c h un =
     (r3, Inr (case map_of (online_list r c) h of
            None \<Rightarrow> False
          | Some u \<Rightarrow> u \<noteq> [] \<and> u \<notin> set (map snd (AList.delete h (online_list r c)))))"
    unfolding socket_disconnect_def Let_def a b after_Inr r2_def [symmetric] d
    by (simp add: after_Inr e split: option.split)
  then show ?thesis by simp
qed

lemma handles_of_empty: "(handles_of r c u = []) = (u \<notin> set (map snd (online_list r c)))"
  by (force simp: handles_of_def filter_empty_conv)

text \<open>
  C10.  When the socket id is not in the online map (and the online key and the typing
  key are of the right kind), \<open>socket_disconnect\<close> returns False and leaves the online
  map as it was, but the user number is taken out of the typing set and the session key
  of that socket id is deleted; every other key is untouched.
\<close>

theorem disconnect_absent_handle:
  assumes "hash_or_absent r (online_key c)" and "set_or_absent r (typing_key c)"
    and "map_of (online_list r c) h = None"
  shows "snd (socket_disconnect r c h un) = Inr False
     \<and> online_list (fst (socket_disconnect r c h un)) c = online_list r c
     \<and> typing_set (fst (socket_disconnect r c h un)) c = typing_set r c - {py_str un}
     \<and> fst (socket_disconnect r c h un) (session_key c h) = None
     \<and> (\<forall>k. k \<noteq> online_key c \<and> k \<noteq> typing_key c \<and> k \<noteq> session_key c h
            \<longrightarrow> fst (socket_disconnect r c h un) k = r k)"
  using assms
  by (simp add: sd_snd sd_online sd_typing sd_session sd_frame delete_absent)

text \<open>
  A database where number 3 is typing and socket h1 has a session key but no entry in
  the online map.
\<close>

theorem disconnect_absent_handle_witness:
  "hash_or_absent (Map.empty(typing_key 1 \<mapsto> (RSet {''3''}, None),
                             session_key 1 ''h1'' \<mapsto> (RString ''s1'', Some 30))) (online_key 1)
   \<and> set_or_absent (Map.empty(typing_key 1 \<mapsto> (RSet {''3''}, None),
                             session_key 1 ''h1'' \<mapsto> (RString ''s1'', Some 30))) (typing_key 1)
   \<and> map_of (online_list (Map.empty(typing_key 1 \<mapsto> (RSet {''3''}, None),
                             session_key 1 ''h1'' \<mapsto> (RString ''s1'', Some 30))) 1) ''h1'' = None
   \<and> snd (socket_disconnect (Map.empty(typing_key 1 \<mapsto> (RSet {''3''}, None),
                             session_key 1 ''h1'' \<mapsto> (RString ''s1'', Some 30))) 1 ''h1'' 3) = Inr False
   \<and> typing_set (fst (socket_disconnect (Map.empty(typing_key 1 \<mapsto> (RSet {''3''}, None),
                             session_key 1 ''h1'' \<mapsto> (RString ''s1'', Some 30))) 1 ''h1'' 3)) 1 = {}
   \<and> fst (socket_disconnect (Map.empty(typing_key 1 \<mapsto> (RSet {''3''}, None),
                             session_key 1 ''h1'' \<mapsto> (RString ''s1'', Some 30))) 1 ''h1'' 3)
         (session_key 1 ''h1'') = None"
proof -
  let ?r = "Map.empty(typing_key 1 \<mapsto> (RSet {''3''}, None),
                      session_key 1 ''h1'' \<mapsto> (RString ''s1'', Some 30))"
  have a: "hash_or_absent ?r (online_key 1)"
    by (simp add: hash_or_absent_def)
  have b: "set_or_absent ?r (typing_key 1)"
    by (simp add: set_or_absent_def)
  have c: "map_of (online_list ?r 1) ''h1'' = None"
    by (simp add: online_list_def)
  have t: "typing_set ?r 1 = {''3''}"
    by (simp add: typing_set_def)
  show ?thesis
    using a b c disconnect_absent_handle [OF a b c, of 3]
    by (simp add: t)
qed

text \<open>
  C5.  When the socket id is in the online map and belongs to user \<open>uid\<close>,
  \<open>socket_disconnect\<close> returns True exactly when \<open>uid\<close> is not among the values of the
  online map that remains, which is the old map without that socket id; the user owned
  at least one socket before the call, and the result is True exactly when the user owns
  none after it.
\<close>

theorem disconnect_signal:
  assumes ho: "hash_or_absent r (online_key c)" and st: "set_or_absent r (typing_key c)"
    and own: "map_of (online_list r c) h = Some (py_str uid)"
  shows "snd (socket_disconnect r c h un) =
           Inr (py_str uid \<notin> set (map snd (online_list (fst (socket_disconnect r c h un)) c)))
     \<and> online_list (fst (socket_disconnect r c h un)) c = AList.delete h (online_list r c)
     \<and> handles_of r c (py_str uid) \<noteq> []
     \<and> snd (socket_disconnect r c h un) =
           Inr (handles_of (fst (socket_disconnect r c h un)) c (py_str uid) = [])"
proof -
  have "(h, py_str uid) \<in> set (online_list r c)"
    using own by (rule map_of_SomeD)
  then have "py_str uid \<in> set (map snd (online_list r c))"
    by force
  then have before: "handles_of r c (py_str uid) \<noteq> []"
    by (simp add: handles_of_empty)
  have res: "snd (socket_disconnect r c h un) =
           Inr (py_str uid \<notin> set (map snd (online_list (fst (socket_disconnect r c h un)) c)))"
    by (simp add: sd_snd [OF ho st] sd_online [OF ho] own py_str_nonempty)
  show ?thesis
    using before res by (simp add: handles_of_empty sd_online [OF ho])
qed

text \<open>
  User 5 holds sockets h1 and h2: leaving with h1 returns False, and leaving with h2
  from what remains returns True.
\<close>

theorem disconnect_signal_witness:
  "hash_or_absent (Map.empty(online_key 1 \<mapsto> (RHash [(''h1'', ''5''), (''h2'', ''5'')], None))) (online_key 1)
   \<and> set_or_absent (Map.empty(online_key 1 \<mapsto> (RHash [(''h1'', ''5''), (''h2'', ''5'')], None))) (typing_key 1)
   \<and> map_of (online_list (Map.empty(online_key 1 \<mapsto> (RHash [(''h1'', ''5''), (''h2'', ''5'')], None))) 1) ''h1''
        = Some (py_str 5)
   \<and> snd (socket_disconnect (Map.empty(online_key 1 \<mapsto> (RHash [(''h1'', ''5''), (''h2'', ''5'')], None)))
          1 ''h1'' 3) = Inr False
   \<and> online_list (fst (socket_disconnect
          (Map.empty(online_key 1 \<mapsto> (RHash [(''h1'', ''5''), (''h2'', ''5'')], None))) 1 ''h1'' 3)) 1
        = [(''h2'', ''5'')]
   \<and> hash_or_absent (Map.empty(online_key 1 \<mapsto> (RHash [(''h2'', ''5'')], None))) (online_key 1)
   \<and> set_or_absent (Map.empty(online_key 1 \<mapsto> (RHash [(''h2'', ''5'')], None))) (typing_key 1)
   \<and> map_of (online_list (Map.empty(online_key 1 \<mapsto> (RHash [(''h2'', ''5'')], None))) 1) ''h2''
        = Some (py_str 5)
   \<and> snd (socket_disconnect (Map.empty(online_key 1 \<mapsto> (RHash [(''h2'', ''5'')], None)))
          1 ''h2'' 3) = Inr True"
proof -
  let ?r = "Map.empty(online_key 1 \<mapsto> (RHash [(''h1'', ''5''), (''h2'', ''5'')], None))"
  let ?q = "Map.empty(online_key 1 \<mapsto> (RHash [(''h2'', ''5'')], None))"
  have a: "hash_or_absent ?r (online_key 1)" "hash_or_absent ?q (online_key 1)"
    by (simp_all add: hash_or_absent_def)
  have b: "set_or_absent ?r (typing_key 1)" "set_or_absent ?q (typing_key 1)"
    by (simp_all add: set_or_absent_def)
  have l: "online_list ?r 1 = [(''h1'', ''5''), (''h2'', ''5'')]" "online_list ?q 1 = [(''h2'', ''5'')]"
    by (simp_all add: online_list_def)
  have c: "map_of (online_list ?r 1) ''h1'' = Some (py_str 5)"
    "map_of (online_list ?q 1) ''h2'' = Some (py_str 5)"
    by (simp_all add: l)
  show ?thesis
    using a b c disconnect_signal [OF a(1) b(1) c(1), of 3] disconnect_signal [OF a(2) b(2) c(2), of 3]
    by (simp add: l handles_of_def)
qed

subsection \<open>Joining\<close>

lemma hset_ok: "hash_or_absent r k \<Longrightarrow> redis_hset r k f v = Inr (after r (redis_hset r k f v))"
  by (simp add: hash_or_absent_def redis_hset_def redis_hmset_def after_def
      split: option.splits prod.splits rvalue.splits)

lemma hset_other: "k' \<noteq> k \<Longrightarrow> after r (redis_hset r k f v) k' = r k'"
  by (simp add: redis_hset_def redis_hmset_def after_def split: option.splits prod.splits rvalue.splits)

lemma hset_online: "hash_or_absent r (online_key c) \<Longrightarrow>
    online_list (after r (redis_hset r (online_key c) f v)) c = AList.update f v (online_list r c)"
  by (simp add: hash_or_absent_def redis_hset_def redis_hmset_def after_def online_list_def
      split: option.splits prod.splits rvalue.splits)

lemma hset_hash: "hash_or_absent r k \<Longrightarrow> hash_or_absent (after r (redis_hset r k f v)) k"
  by (simp add: hash_or_absent_def redis_hset_def redis_hmset_def after_def
      split: option.splits prod.splits rvalue.splits)

lemma setex_same: "redis_setex r k n v k = Some (RString v, Some n)"
  by (simp add: redis_setex_def)

lemma setex_other: "k' \<noteq> k \<Longrightarrow> redis_setex r k n v k' = r k'"
  by (simp add: redis_setex_def)

lemma sj_fst:
  "fst (socket_join r c h s uid now) =
     redis_setex
       (after (after r (redis_hset r ''queue:usermeta'' (''chatuser:'' @ py_str uid) (usermeta_json now c)))
          (redis_hset (after r (redis_hset r ''queue:usermeta'' (''chatuser:'' @ py_str uid) (usermeta_json now c)))
             (online_key c) h (py_str uid)))
       (session_key c h) 30 s"
  by (simp add: socket_join_def Let_def split: sum.split)

lemma sj_session: "fst (socket_join r c h s uid now) (session_key c h) = Some (RString s, Some 30)"
  by (simp add: sj_fst setex_same)

lemma sj_online_key:
  "fst (socket_join r c h s uid now) (online_key c) =
     after r (redis_hset r (online_key c) h (py_str uid)) (online_key c)"
  by (simp add: sj_fst setex_other redis_hset_def redis_hmset_def after_def hset_other
      split: option.splits prod.splits rvalue.splits sum.splits)

lemma sj_online:
  assumes "hash_or_absent r (online_key c)"
  shows "online_list (fst (socket_join r c h s uid now)) c = AList.update h (py_str uid) (online_list r c)"
proof -
  have "online_list (fst (socket_join r c h s uid now)) c
      = online_list (after r (redis_hset r (online_key c) h (py_str uid))) c"
    using sj_online_key by (rule online_list_cong)
  then show ?thesis
    by (simp add: hset_online assms)
qed

lemma sj_hash:
  assumes "hash_or_absent r (online_key c)"
  shows "hash_or_absent (fst (socket_join r c h s uid now)) (online_key c)"
  using hset_hash [OF assms, of h "py_str uid"]
  by (simp add: hash_or_absent_def sj_online_key)

lemma sj_usermeta:
  assumes "hash_or_absent r ''queue:usermeta''"
  shows "hash_or_absent (fst (socket_join r c h s uid now)) ''queue:usermeta''"
proof -
  have "fst (socket_join r c h s uid now) ''queue:usermeta''
      = after r (redis_hset r ''queue:usermeta'' (''chatuser:'' @ py_str uid) (usermeta_json now c)) ''queue:usermeta''"
    by (simp add: sj_fst setex_other hset_other)
  then show ?thesis
    using hset_hash [OF assms, of "''chatuser:'' @ py_str uid" "usermeta_json now c"]
    by (simp add: hash_or_absent_def)
qed

lemma sj_snd:
  assumes ho: "hash_or_absent r (online_key c)" and hm: "hash_or_absent r ''queue:usermeta''"
  shows "snd (socket_join r c h s uid now) = Inr (py_str uid \<notin> set (map snd (online_list r c)))"
proof -
  define r1 where "r1 = after r (redis_hset r ''queue:usermeta'' (''chatuser:'' @ py_str uid) (usermeta_json now c))"
  have a: "redis_hvals r (online_key c) = Inr (map snd (online_list r c))"
    by (rule hvals_online [OF ho])
  have b: "redis_hset r ''queue:usermeta'' (''chatuser:'' @ py_str uid) (usermeta_json now c) = Inr r1"
    unfolding r1_def by (rule hset_ok [OF hm])
  have "r1 (online_key c) = r (online_key c)"
    by (simp add: r1_def hset_other)
  then have "hash_or_absent r1 (online_key c)"
    using ho by (simp add: hash_or_absent_def)
  then obtain r2 where d: "redis_hset r1 (online_key c) h (py_str uid) = Inr r2"
    using hset_ok by blast
  show ?thesis
    unfolding socket_join_def Let_def a b after_Inr d
    by simp
qed

lemma update_value_mem: "v \<in> set (map snd (AList.update k v es))"
  by (induction es) auto

lemma update_only_handle:
  "u \<notin> set (map snd es) \<Longrightarrow> map fst (filter (\<lambda>(h, v). v = u) (AList.update k u es)) = [k]"
proof (induction es)
  case Nil
  show ?case by simp
next
  case (Cons a es)
  obtain x y where a: "a = (x, y)" by (cases a)
  from Cons.prems a have y: "y \<noteq> u" and rest: "u \<notin> set (map snd es)"
    by auto
  from rest have none: "filter (\<lambda>(h, v). v = u) es = []"
    by (force simp: filter_empty_conv)
  show ?case
  proof (cases "x = k")
    case True
    then show ?thesis by (simp add: a none)
  next
    case False
    then show ?thesis using Cons.IH [OF rest] y by (simp add: a)
  qed
qed

text \<open>
  C4.  In a chat whose online key (and the metadata queue's key) is absent or a hash,
  \<open>socket_join\<close> returns True exactly when \<open>str(user_id)\<close> is not among the values the
  online map had before the call, that is when the user owned no socket; the user then
  owns exactly the joining socket; and after any join the user owns a socket, so a
  further join of the same user, with whatever socket id, returns False.
\<close>

theorem join_signal:
  assumes ho: "hash_or_absent r (online_key c)" and hm: "hash_or_absent r ''queue:usermeta''"
  shows "snd (socket_join r c h s uid now) = Inr (py_str uid \<notin> set (map snd (online_list r c)))
     \<and> snd (socket_join r c h s uid now) = Inr (handles_of r c (py_str uid) = [])
     \<and> (handles_of r c (py_str uid) = []
          \<longrightarrow> handles_of (fst (socket_join r c h s uid now)) c (py_str uid) = [h])
     \<and> handles_of (fst (socket_join r c h s uid now)) c (py_str uid) \<noteq> []
     \<and> snd (socket_join (fst (socket_join r c h s uid now)) c h' s' uid now') = Inr False"
proof -
  let ?r' = "fst (socket_join r c h s uid now)"
  have l: "online_list ?r' c = AList.update h (py_str uid) (online_list r c)"
    by (rule sj_online [OF ho])
  have one: "handles_of r c (py_str uid) = [] \<longrightarrow> handles_of ?r' c (py_str uid) = [h]"
    by (simp add: handles_of_empty) (simp add: handles_of_def l update_only_handle)
  have mem: "py_str uid \<in> set (map snd (online_list ?r' c))"
    unfolding l by (rule update_value_mem)
  have again: "snd (socket_join ?r' c h' s' uid now') = Inr False"
    using mem by (simp add: sj_snd [OF sj_hash [OF ho] sj_usermeta [OF hm]])
  show ?thesis
    using one mem again by (simp add: sj_snd [OF ho hm] handles_of_empty)
qed

text \<open>User 5 joins the empty chat 1 with socket h1 (True), then with socket h2 (False).\<close>

theorem join_signal_witness:
  "hash_or_absent Map.empty (online_key 1)
   \<and> hash_or_absent Map.empty ''queue:usermeta''
   \<and> snd (socket_join Map.empty 1 ''h1'' ''s1'' 5 ''0.0'') = Inr True
   \<and> handles_of (fst (socket_join Map.empty 1 ''h1'' ''s1'' 5 ''0.0'')) 1 (py_str 5) = [''h1'']
   \<and> snd (socket_join (fst (socket_join Map.empty 1 ''h1'' ''s1'' 5 ''0.0'')) 1 ''h2'' ''s1'' 5 ''0.1'')
        = Inr False"
proof -
  have a: "hash_or_absent Map.empty (online_key 1)" "hash_or_absent Map.empty ''queue:usermeta''"
    by (simp_all add: hash_or_absent_def)
  have l: "online_list Map.empty 1 = []"
    by (simp add: online_list_def)
  show ?thesis
    using a join_signal [OF a, of "''h1''" "''s1''" 5 "''0.0''" "''h2''" "''s1''" "''0.1''"]
    by (simp add: l handles_of_def)
qed

subsection \<open>Expired sockets\<close>

lemma chat_keys:
  "''chat:'' @ py_str c @ '':online'' = online_key c"
  "''chat:'' @ py_str c @ '':online:'' @ h = session_key c h"
  "''chat:'' @ py_str c @ '':typing'' = typing_key c"
  by (simp_all add: online_key_def session_key_def typing_key_def)

lemma exists_zero: "(redis_exists r k = 0) = (r k = None)"
  by (simp add: redis_exists_def split: option.split)

lemma inconsistent_loop_filter:
  "inconsistent_loop r (py_str c) es = filter (\<lambda>(h, v). r (session_key c h) = None) es"
  by (induction es) (auto simp: exists_zero chat_keys simp del: append.simps)

lemma entries_with_int_iff:
  "(entries_with_int es = Inr out) =
     (map (\<lambda>(h, n). (h, Some n)) out = map (\<lambda>(h, v). (h, py_int v)) es)"
proof (induction es arbitrary: out)
  case Nil
  show ?case by auto
next
  case (Cons a es)
  obtain h v where a: "a = (h, v)" by (cases a)
  show ?case
  proof (cases "py_int v")
    case None
    then show ?thesis by (auto simp: a)
  next
    case (Some n)
    show ?thesis
    proof (cases "entries_with_int es")
      case (Inl e)
      with Cons.IH have "\<And>out'. map (\<lambda>(h, n). (h, Some n)) out' \<noteq> map (\<lambda>(h, v). (h, py_int v)) es"
        by simp
      with Inl Some show ?thesis by (cases out) (auto simp: a)
    next
      case (Inr out')
      with Cons.IH have "\<And>o'. (out' = o') = (map (\<lambda>(h, n). (h, Some n)) o' = map (\<lambda>(h, v). (h, py_int v)) es)"
        by simp
      with Inr Some show ?thesis by (cases out) (auto simp: a)
    qed
  qed
qed

lemma entries_with_int_total:
  "list_all (\<lambda>(h, v). py_int v \<noteq> None) es \<Longrightarrow> \<exists>out. entries_with_int es = Inr out"
  by (induction es) auto

lemma ie_fst: "fst (inconsistent_entries r c) = r"
  by (simp add: inconsistent_entries_def inconsistent_entries_script_def split: sum.split)

lemma ie_snd:
  assumes "hash_or_absent r (online_key c)"
  shows "snd (inconsistent_entries r c) =
     entries_with_int (filter (\<lambda>(h, v). r (session_key c h) = None) (online_list r c))"
  by (simp add: inconsistent_entries_def inconsistent_entries_script_def chat_keys
      hgetall_online [OF assms] inconsistent_loop_filter del: append.simps)

lemma py_int_small [simp]: "py_int ''5'' = Some 5" "py_int ''7'' = Some 7" "py_int ''9'' = Some 9"
  by (simp_all add: py_int_def strip_def is_space_def digit_val_def digit_chars_def)

lemma some_pairs_inj:
  "(map (\<lambda>(h, n). (h, Some n)) out = map (\<lambda>(h, n). (h, Some n)) out') = (out = out')"
  by (rule inj_map_eq_map) (auto simp: inj_on_def)

text \<open>
  C8.  \<open>inconsistent_entries\<close> returns the database it was given, whatever it answers.
  When the online key is absent or a hash and the user ids of the entries without a
  session key are numerals, it answers with exactly those entries of the online map, in
  the map's order, whose session key does not exist, each user id read as a number.
\<close>

theorem reconcile_detection_only:
  "fst (inconsistent_entries r c) = r
   \<and> (hash_or_absent r (online_key c)
        \<and> list_all (\<lambda>(h, v). py_int v \<noteq> None)
             (filter (\<lambda>(h, v). r (session_key c h) = None) (online_list r c))
      \<longrightarrow> (\<exists>out. snd (inconsistent_entries r c) = Inr out
             \<and> map (\<lambda>(h, n). (h, Some n)) out
                 = map (\<lambda>(h, v). (h, py_int v))
                     (filter (\<lambda>(h, v). r (session_key c h) = None) (online_list r c))))"
proof -
  have "\<exists>out. snd (inconsistent_entries r c) = Inr out
             \<and> map (\<lambda>(h, n). (h, Some n)) out
                 = map (\<lambda>(h, v). (h, py_int v))
                     (filter (\<lambda>(h, v). r (session_key c h) = None) (online_list r c))"
    if ho: "hash_or_absent r (online_key c)"
      and p: "list_all (\<lambda>(h, v). py_int v \<noteq> None)
             (filter (\<lambda>(h, v). r (session_key c h) = None) (online_list r c))"
  proof -
    obtain out where o: "entries_with_int (filter (\<lambda>(h, v). r (session_key c h) = None) (online_list r c)) = Inr out"
      using entries_with_int_total [OF p] by blast
    then have "map (\<lambda>(h, n). (h, Some n)) out
                 = map (\<lambda>(h, v). (h, py_int v))
                     (filter (\<lambda>(h, v). r (session_key c h) = None) (online_list r c))"
      by (simp add: entries_with_int_iff)
    then show ?thesis
      using o by (simp add: ie_snd [OF ho])
  qed
  then show ?thesis
    by (simp add: ie_fst)
qed

text \<open>Socket h1 of user 5 has no session key, socket h2 of user 7 has one.\<close>

theorem reconcile_detection_only_witness:
  "hash_or_absent (Map.empty(online_key 1 \<mapsto> (RHash [(''h1'', ''5''), (''h2'', ''7'')], None),
                             session_key 1 ''h2'' \<mapsto> (RString ''s2'', Some 12))) (online_key 1)
   \<and> inconsistent_entries (Map.empty(online_key 1 \<mapsto> (RHash [(''h1'', ''5''), (''h2'', ''7'')], None),
                             session_key 1 ''h2'' \<mapsto> (RString ''s2'', Some 12))) 1
       = (Map.empty(online_key 1 \<mapsto> (RHash [(''h1'', ''5''), (''h2'', ''7'')], None),
                    session_key 1 ''h2'' \<mapsto> (RString ''s2'', Some 12)),
          Inr [(''h1'', 5)])"
proof -
  let ?r = "Map.empty(online_key 1 \<mapsto> (RHash [(''h1'', ''5''), (''h2'', ''7'')], None),
                      session_key 1 ''h2'' \<mapsto> (RString ''s2'', Some 12))"
  have a: "hash_or_absent ?r (online_key 1)"
    by (simp add: hash_or_absent_def)
  have l: "online_list ?r 1 = [(''h1'', ''5''), (''h2'', ''7'')]"
    by (simp add: online_list_def)
  have f: "filter (\<lambda>(h, v). ?r (session_key 1 h) = None) (online_list ?r 1) = [(''h1'', ''5'')]"
    by (simp add: l)
  have "fst (inconsistent_entries ?r 1) = ?r \<and> snd (inconsistent_entries ?r 1) = Inr [(''h1'', 5)]"
    using reconcile_detection_only [of ?r 1] a
    unfolding f by (auto simp: some_pairs_inj [of _ "[(''h1'', 5)]", simplified])
  then show ?thesis
    using a by (simp add: prod_eq_iff)
qed

lemma expire_string: "r k = Some (v, t) \<Longrightarrow> redis_expire r k n = r(k \<mapsto> (v, Some n))"
  by (simp add: redis_expire_def)

lemma sp_timeout_session:
  assumes ho: "hash_or_absent r (online_key c)" and "r (session_key c h) = None"
  shows "socket_ping r c h = (r, Inl PingTimeoutException)"
  using assms(2)
  by (simp add: socket_ping_def socket_ping_script_def chat_keys hget_online [OF ho] redis_get_def
      del: append.simps split: option.split)

lemma sp_timeout_online:
  assumes ho: "hash_or_absent r (online_key c)" and "map_of (online_list r c) h = None"
  shows "socket_ping r c h = (r, Inl PingTimeoutException)"
  using assms(2)
  by (simp add: socket_ping_def socket_ping_script_def chat_keys hget_online [OF ho]
      del: append.simps)

lemma sp_refresh:
  assumes ho: "hash_or_absent r (online_key c)" and "map_of (online_list r c) h = Some u"
    and "r (session_key c h) = Some (RString s, t)"
  shows "socket_ping r c h = (r(session_key c h \<mapsto> (RString s, Some 30)), Inr ())"
  using assms(2,3)
  by (simp add: socket_ping_def socket_ping_script_def chat_keys hget_online [OF ho] redis_get_def
      expire_string del: append.simps)

lemma elapse_gone: "r k = Some (v, Some t) \<Longrightarrow> t \<le> d \<Longrightarrow> elapse d r k = None"
  by (simp add: elapse_def)

lemma elapse_hash: "hash_or_absent r k \<Longrightarrow> hash_or_absent (elapse d r) k"
  by (simp add: hash_or_absent_def elapse_def split: option.splits prod.splits rvalue.splits)

text \<open>
  C6.  In a chat whose online key is absent or a hash: \<open>socket_ping\<close> raises
  PingTimeoutException, and changes nothing, when the socket's session key is absent
  (whether or not the socket id is still in the online map), in particular once the
  key's time to live has run out, and when the socket id is not in the online map; when
  both are there it sets the session key's time to live to 30 and returns; and after a
  timeout of a socket id that is still in the online map, \<open>inconsistent_entries\<close> lists
  that socket id with its user id.
\<close>

theorem ping_timeout:
  assumes ho: "hash_or_absent r (online_key c)"
  shows "(r (session_key c h) = None \<longrightarrow> socket_ping r c h = (r, Inl PingTimeoutException))
     \<and> (r (session_key c h) = Some (v, Some ttl) \<and> ttl \<le> d
          \<longrightarrow> socket_ping (elapse d r) c h = (elapse d r, Inl PingTimeoutException))
     \<and> (map_of (online_list r c) h = None \<longrightarrow> socket_ping r c h = (r, Inl PingTimeoutException))
     \<and> (map_of (online_list r c) h = Some u \<and> r (session_key c h) = Some (RString s, t)
          \<longrightarrow> socket_ping r c h = (r(session_key c h \<mapsto> (RString s, Some 30)), Inr ()))
     \<and> (map_of (online_list r c) h = Some (py_str uid) \<and> r (session_key c h) = None
          \<and> list_all (\<lambda>(h, v). py_int v \<noteq> None)
               (filter (\<lambda>(h, v). r (session_key c h) = None) (online_list r c))
          \<longrightarrow> (\<exists>out. snd (inconsistent_entries (fst (socket_ping r c h)) c) = Inr out
                 \<and> (h, uid) \<in> set out))"
proof -
  have listed: "\<exists>out. snd (inconsistent_entries (fst (socket_ping r c h)) c) = Inr out \<and> (h, uid) \<in> set out"
    if own: "map_of (online_list r c) h = Some (py_str uid)" and gone: "r (session_key c h) = None"
      and p: "list_all (\<lambda>(h, v). py_int v \<noteq> None)
               (filter (\<lambda>(h, v). r (session_key c h) = None) (online_list r c))"
  proof -
    let ?inc = "filter (\<lambda>(h, v). r (session_key c h) = None) (online_list r c)"
    have same: "fst (socket_ping r c h) = r"
      by (simp add: sp_timeout_session [OF ho gone])
    obtain out where o: "entries_with_int ?inc = Inr out"
      using entries_with_int_total [OF p] by blast
    then have m: "map (\<lambda>(h, n). (h, Some n)) out = map (\<lambda>(h, v). (h, py_int v)) ?inc"
      by (simp add: entries_with_int_iff)
    have "(h, py_str uid) \<in> set (online_list r c)"
      using own by (rule map_of_SomeD)
    then have "(h, py_str uid) \<in> set ?inc"
      using gone by simp
    then have "(h, Some uid) \<in> set (map (\<lambda>(h, v). (h, py_int v)) ?inc)"
      using py_int_py_str [of uid] by force
    then have "(h, Some uid) \<in> set (map (\<lambda>(h, n). (h, Some n)) out)"
      by (simp only: m)
    then have "(h, uid) \<in> set out"
      by auto
    then show ?thesis
      using o by (simp add: same ie_snd [OF ho])
  qed
  have expired: "socket_ping (elapse d r) c h = (elapse d r, Inl PingTimeoutException)"
    if "r (session_key c h) = Some (v, Some ttl)" and "ttl \<le> d"
    using that by (simp add: sp_timeout_session [OF elapse_hash [OF ho]] elapse_gone)
  show ?thesis
    using listed expired
    by (simp add: sp_timeout_session [OF ho] sp_timeout_online [OF ho] sp_refresh [OF ho])
qed

text \<open>
  Socket h1 of user 5 is in the online map of chat 1.  Without a session key the ping
  times out and the entry is reported; socket h2, not in the map, times out as well;
  with a session key that has 7 seconds left the ping sets them to 30, and without a
  ping for those 7 seconds the next ping times out.
\<close>

theorem ping_timeout_witness:
  "hash_or_absent (Map.empty(online_key 1 \<mapsto> (RHash [(''h1'', ''5'')], None))) (online_key 1)
   \<and> socket_ping (Map.empty(online_key 1 \<mapsto> (RHash [(''h1'', ''5'')], None))) 1 ''h1''
       = (Map.empty(online_key 1 \<mapsto> (RHash [(''h1'', ''5'')], None)), Inl PingTimeoutException)
   \<and> socket_ping (Map.empty(online_key 1 \<mapsto> (RHash [(''h1'', ''5'')], None))) 1 ''h2''
       = (Map.empty(online_key 1 \<mapsto> (RHash [(''h1'', ''5'')], None)), Inl PingTimeoutException)
   \<and> (\<exists>out. snd (inconsistent_entries
                   (fst (socket_ping (Map.empty(online_key 1 \<mapsto> (RHash [(''h1'', ''5'')], None))) 1 ''h1'')) 1)
               = Inr out
             \<and> (''h1'', 5) \<in> set out)
   \<and> hash_or_absent (Map.empty(online_key 1 \<mapsto> (RHash [(''h1'', ''5'')], None),
                               session_key 1 ''h1'' \<mapsto> (RString ''s1'', Some 7))) (online_key 1)
   \<and> socket_ping (Map.empty(online_key 1 \<mapsto> (RHash [(''h1'', ''5'')], None),
                              session_key 1 ''h1'' \<mapsto> (RString ''s1'', Some 7))) 1 ''h1''
       = (Map.empty(online_key 1 \<mapsto> (RHash [(''h1'', ''5'')], None),
                    session_key 1 ''h1'' \<mapsto> (RString ''s1'', Some 30)), Inr ())
   \<and> snd (socket_ping (elapse 7 (Map.empty(online_key 1 \<mapsto> (RHash [(''h1'', ''5'')], None),
                              session_key 1 ''h1'' \<mapsto> (RString ''s1'', Some 7)))) 1 ''h1'')
       = Inl PingTimeoutException"
proof -
  let ?r = "Map.empty(online_key 1 \<mapsto> (RHash [(''h1'', ''5'')], None))"
  let ?q = "Map.empty(online_key 1 \<mapsto> (RHash [(''h1'', ''5'')], None),
                      session_key 1 ''h1'' \<mapsto> (RString ''s1'', Some 7))"
  have a: "hash_or_absent ?r (online_key 1)" and b: "hash_or_absent ?q (online_key 1)"
    by (simp_all add: hash_or_absent_def)
  have l: "online_list ?r 1 = [(''h1'', ''5'')]" "online_list ?q 1 = [(''h1'', ''5'')]"
    by (simp_all add: online_list_def)
  have s: "?r (session_key 1 ''h1'') = None" "?q (session_key 1 ''h1'') = Some (RString ''s1'', Some 7)"
    by simp_all
  show ?thesis
    using a b
      ping_timeout [OF a, where h = "''h1''" and uid = 5]
      ping_timeout [OF a, where h = "''h2''"]
      ping_timeout [OF b, where h = "''h1''" and u = "''5''" and s = "''s1''" and t = "Some 7"
                          and v = "RString ''s1''" and ttl = 7 and d = 7]
    by (auto simp: l)
qed

subsection \<open>Connection tokens\<close>

lemma token_keys:
  "''connection:token:'' @ t = forward_token_key t"
  "''connection:user:'' @ py_str u @ '':'' @ py_str c = reverse_token_key u c"
  by (simp_all add: forward_token_key_def reverse_token_key_def)

lemma token_keys_distinct [simp]:
  "forward_token_key t \<noteq> reverse_token_key u c" "reverse_token_key u c \<noteq> forward_token_key t"
  by (simp_all add: forward_token_key_def reverse_token_key_def)

lemma forward_token_key_inj [simp]: "(forward_token_key t = forward_token_key t') = (t = t')"
  by (simp add: forward_token_key_def)

lemma use_never_returns: "snd (use_connection_token p r t) \<noteq> Inr x"
  by (simp add: use_connection_token_def use_connection_token_script_def lua_global_def
      split: sum.split option.split prod.split list.split)

lemma use_absent:
  assumes "r (forward_token_key t) = None"
  shows "use_connection_token p r t = (r, Inl InvalidToken)"
  using assms
  by (simp add: use_connection_token_def use_connection_token_script_def token_keys redis_hget_def
      del: append.simps)

lemma create_forward_other:
  assumes "t \<noteq> s" and "r (forward_token_key t) = None"
  shows "fst (create_connection_token r u c s t') (forward_token_key t) = None"
  using assms
  by (auto simp: create_connection_token_def create_connection_token_script_def token_keys Let_def
      redis_get_def redis_hmset_def redis_expire_def redis_set_def redis_del_def
      simp del: append.simps split: sum.splits option.splits prod.splits rvalue.splits)

lemma create_returns:
  assumes "string_or_absent r (reverse_token_key u c)" and "hash_or_absent r (forward_token_key s)"
  shows "snd (create_connection_token r u c s t) = Inr t"
  using assms
  by (auto simp: create_connection_token_def create_connection_token_script_def token_keys Let_def
      string_or_absent_def hash_or_absent_def
      redis_get_def redis_hmset_def redis_del_def
      simp del: append.simps split: sum.splits option.splits prod.splits rvalue.splits)

lemma create_forward_session:
  assumes "string_or_absent r (reverse_token_key u c)" and "hash_or_absent r (forward_token_key s)"
  shows "redis_hget (fst (create_connection_token r u c s t)) (forward_token_key s) ''user_id''
           = Inr (Some (py_str u))
     \<and> redis_hget (fst (create_connection_token r u c s t)) (forward_token_key s) ''chat_id''
           = Inr (Some (py_str c))
     \<and> redis_hget (fst (create_connection_token r u c s t)) (forward_token_key s) ''session_id''
           = Inr (Some s)"
  using assms
  by (auto simp: create_connection_token_def create_connection_token_script_def token_keys Let_def
      string_or_absent_def hash_or_absent_def
      redis_get_def redis_hmset_def redis_del_def redis_hget_def redis_expire_def redis_set_def
      update_conv'
      simp del: append.simps split: sum.splits option.splits prod.splits rvalue.splits)

text \<open>
  C1.  What the code does where the claim promises a round trip.  The script stores the
  forward record under the session id, so for a token that differs from the session id
  and has no record of its own, \<open>create_connection_token\<close> returns the token and
  redeeming it straight away raises InvalidToken, leaving the database as it was: the
  token has no forward record, and the record with the user id is under the session id.
\<close>

theorem fresh_token_not_redeemable:
  assumes "string_or_absent r (reverse_token_key u c)" and "hash_or_absent r (forward_token_key s)"
    and "t \<noteq> s" and "r (forward_token_key t) = None"
  shows "snd (create_connection_token r u c s t) = Inr t
     \<and> use_connection_token p (fst (create_connection_token r u c s t)) t
         = (fst (create_connection_token r u c s t), Inl InvalidToken)
     \<and> fst (create_connection_token r u c s t) (forward_token_key t) = None
     \<and> redis_hget (fst (create_connection_token r u c s t)) (forward_token_key s) ''user_id''
         = Inr (Some (py_str u))"
  using assms
  by (simp add: create_returns use_absent create_forward_other create_forward_session)

text \<open>The token made for user 5, chat 9 and session s1 on the empty database.\<close>

theorem fresh_token_not_redeemable_witness:
  "string_or_absent Map.empty (reverse_token_key 5 9)
   \<and> hash_or_absent Map.empty (forward_token_key ''s1'')
   \<and> token_a \<noteq> ''s1''
   \<and> snd (create_connection_token Map.empty 5 9 ''s1'' token_a) = Inr token_a
   \<and> snd (use_connection_token (\<lambda>t. True) (fst (create_connection_token Map.empty 5 9 ''s1'' token_a)) token_a)
       = Inl InvalidToken
   \<and> redis_hget (fst (create_connection_token Map.empty 5 9 ''s1'' token_a)) (forward_token_key ''s1'') ''user_id''
       = Inr (Some ''5'')"
proof -
  have a: "string_or_absent Map.empty (reverse_token_key 5 9)"
    by (simp add: string_or_absent_def)
  have b: "hash_or_absent Map.empty (forward_token_key ''s1'')"
    by (simp add: hash_or_absent_def)
  have c: "token_a \<noteq> ''s1''"
    by (simp add: token_a_def)
  have d: "Map.empty (forward_token_key token_a) = None"
    by simp
  show ?thesis
    using a b c fresh_token_not_redeemable [OF a b c d, of "\<lambda>t. True"]
    by simp
qed

text \<open>
  C2.  What the code does where the claim promises one live token for a pair.  After two
  tokens for user 5 and chat 9, made with the sessions s1 and s2, the forward records of
  both sessions are in the database, the reverse record holds the second token, and
  neither token has a forward record: the DEL of the first token's record removed
  nothing, and both tokens are refused with InvalidToken, the second as well as the
  first.  When the second session id is the first token, the script finds a record for
  the first token and ends in an error instead of the empty reply that becomes
  InvalidToken.
\<close>

theorem forward_records_accumulate:
  "redis_hgetall
     (fst (create_connection_token (fst (create_connection_token Map.empty 5 9 ''s1'' token_a)) 5 9 ''s2'' token_b))
     (forward_token_key ''s1'')
     = Inr [(''user_id'', ''5''), (''chat_id'', ''9''), (''session_id'', ''s1'')]
   \<and> redis_hgetall
     (fst (create_connection_token (fst (create_connection_token Map.empty 5 9 ''s1'' token_a)) 5 9 ''s2'' token_b))
     (forward_token_key ''s2'')
     = Inr [(''user_id'', ''5''), (''chat_id'', ''9''), (''session_id'', ''s2'')]
   \<and> redis_get
     (fst (create_connection_token (fst (create_connection_token Map.empty 5 9 ''s1'' token_a)) 5 9 ''s2'' token_b))
     (reverse_token_key 5 9)
     = Inr (Some token_b)
   \<and> fst (create_connection_token (fst (create_connection_token Map.empty 5 9 ''s1'' token_a)) 5 9 ''s2'' token_b)
       (forward_token_key token_a) = None
   \<and> fst (create_connection_token (fst (create_connection_token Map.empty 5 9 ''s1'' token_a)) 5 9 ''s2'' token_b)
       (forward_token_key token_b) = None
   \<and> snd (use_connection_token p
       (fst (create_connection_token (fst (create_connection_token Map.empty 5 9 ''s1'' token_a)) 5 9 ''s2'' token_b))
       token_a) = Inl InvalidToken
   \<and> snd (use_connection_token p
       (fst (create_connection_token (fst (create_connection_token Map.empty 5 9 ''s1'' token_a)) 5 9 ''s2'' token_b))
       token_b) = Inl InvalidToken
   \<and> snd (use_connection_token_script
       (fst (create_connection_token (fst (create_connection_token Map.empty 5 9 ''s1'' token_a)) 5 9 token_a token_b))
       token_a) = Inl ResponseError"
proof -
  let ?r2 = "fst (create_connection_token (fst (create_connection_token Map.empty 5 9 ''s1'' token_a)) 5 9 ''s2'' token_b)"
  have a: "redis_hgetall ?r2 (forward_token_key ''s1'')
             = Inr [(''user_id'', ''5''), (''chat_id'', ''9''), (''session_id'', ''s1'')]"
    by code_simp
  have b: "redis_hgetall ?r2 (forward_token_key ''s2'')
             = Inr [(''user_id'', ''5''), (''chat_id'', ''9''), (''session_id'', ''s2'')]"
    by code_simp
  have c: "redis_get ?r2 (reverse_token_key 5 9) = Inr (Some token_b)"
    by code_simp
  have d: "?r2 (forward_token_key token_a) = None"
    by code_simp
  have e: "?r2 (forward_token_key token_b) = None"
    by code_simp
  have f: "snd (use_connection_token_script
       (fst (create_connection_token (fst (create_connection_token Map.empty 5 9 ''s1'' token_a)) 5 9 token_a token_b))
       token_a) = Inl ResponseError"
    by code_simp
  have g: "snd (use_connection_token p ?r2 token_a) = Inl InvalidToken"
    using d by (simp add: use_absent)
  have h: "snd (use_connection_token p ?r2 token_b) = Inl InvalidToken"
    using e by (simp add: use_absent)
  show ?thesis
    using a b c d e f g h by simp
qed

text \<open>
  C3.  What the code does where the claim promises that the first redemption succeeds.
  \<open>use_connection_token\<close> returns a tuple for no database and no token.  The token
  made for user 5, chat 9 and session s1 is refused with InvalidToken at its first
  redemption.  Where the script does find a record (here the session id is the token),
  it deletes the record and ends in an error; the second redemption then raises
  InvalidToken.
\<close>

theorem redemption_never_succeeds:
  "snd (use_connection_token p r t) \<noteq> Inr x
   \<and> snd (use_connection_token p (fst (create_connection_token Map.empty 5 9 ''s1'' token_a)) token_a)
       = Inl InvalidToken
   \<and> snd (use_connection_token_script (fst (create_connection_token Map.empty 5 9 token_a token_a)) token_a)
       = Inl ResponseError
   \<and> fst (use_connection_token_script (fst (create_connection_token Map.empty 5 9 token_a token_a)) token_a)
       (forward_token_key token_a) = None
   \<and> snd (use_connection_token p
         (fst (use_connection_token_script (fst (create_connection_token Map.empty 5 9 token_a token_a)) token_a))
         token_a) = Inl InvalidToken"
proof -
  have a: "snd (use_connection_token_script (fst (create_connection_token Map.empty 5 9 token_a token_a)) token_a)
       = Inl ResponseError"
    by code_simp
  have b: "fst (use_connection_token_script (fst (create_connection_token Map.empty 5 9 token_a token_a)) token_a)
       (forward_token_key token_a) = None"
    by code_simp
  have c: "fst (create_connection_token Map.empty 5 9 ''s1'' token_a) (forward_token_key token_a) = None"
    by code_simp
  have d: "snd (use_connection_token p (fst (create_connection_token Map.empty 5 9 ''s1'' token_a)) token_a)
       = Inl InvalidToken"
    using c by (simp add: use_absent)
  have e: "snd (use_connection_token p
         (fst (use_connection_token_script (fst (create_connection_token Map.empty 5 9 token_a token_a)) token_a))
         token_a) = Inl InvalidToken"
    using b by (simp add: use_absent)
  show ?thesis
    using a b d e by (simp add: use_never_returns)
qed

subsection \<open>Leaving with every socket\<close>

lemma delete_filter: "AList.delete k es = filter (\<lambda>(h, v). h \<noteq> k) es"
  by (induction es) auto

lemma udl:
  assumes "hash_or_absent r (online_key c)"
  shows "snd (user_disconnect_loop r (py_str c) a2 es had) = Inr (had \<or> a2 \<in> set (map snd es))
     \<and> hash_or_absent (fst (user_disconnect_loop r (py_str c) a2 es had)) (online_key c)
     \<and> online_list (fst (user_disconnect_loop r (py_str c) a2 es had)) c
         = filter (\<lambda>(h, v). (h, a2) \<notin> set es) (online_list r c)
     \<and> (\<forall>k. k \<noteq> online_key c \<longrightarrow>
           fst (user_disconnect_loop r (py_str c) a2 es had) k
             = (if k \<in> session_key c ` {h. (h, a2) \<in> set es} then None else r k))"
  using assms
proof (induction es arbitrary: r had)
  case Nil
  then show ?case by simp
next
  case (Cons e es)
  obtain sid v where e: "e = (sid, v)" by (cases e)
  show ?case
  proof (cases "v = a2")
    case False
    then have "user_disconnect_loop r (py_str c) a2 (e # es) had
        = user_disconnect_loop r (py_str c) a2 es had"
      by (simp add: e)
    moreover have "\<And>h. ((h, a2) \<in> set (e # es)) = ((h, a2) \<in> set es)"
      using False by (auto simp: e)
    moreover have "(a2 \<in> set (map snd (e # es))) = (a2 \<in> set (map snd es))"
      using False by (auto simp: e)
    ultimately show ?thesis
      using Cons.IH [OF Cons.prems, of had] by simp
  next
    case True
    define r1 where "r1 = after r (redis_hdel r (online_key c) sid)"
    define r2 where "r2 = redis_del r1 [session_key c sid]"
    have h1: "redis_hdel r (online_key c) sid = Inr r1"
      unfolding r1_def by (rule hdel_ok [OF Cons.prems])
    have step: "user_disconnect_loop r (py_str c) a2 (e # es) had
        = user_disconnect_loop r2 (py_str c) a2 es True"
      using True by (simp add: e chat_keys h1 r2_def del: append.simps)
    have k2: "r2 (online_key c) = r1 (online_key c)"
      by (simp add: r2_def del_other)
    have ho1: "hash_or_absent r1 (online_key c)"
      unfolding r1_def by (rule hdel_hash [OF Cons.prems])
    then have ho2: "hash_or_absent r2 (online_key c)"
      using k2 by (simp add: hash_or_absent_def)
    have l2: "online_list r2 c = filter (\<lambda>(h, v). h \<noteq> sid) (online_list r c)"
      using online_list_cong [of r2 c r1, OF k2] hdel_online [OF Cons.prems, of sid]
      by (simp add: r1_def delete_filter)
    have f2: "\<And>k. k \<noteq> online_key c \<Longrightarrow> r2 k = (if k = session_key c sid then None else r k)"
      by (simp add: r2_def r1_def redis_del_def hdel_other)
    note ih = Cons.IH [OF ho2, of True]
    have a: "snd (user_disconnect_loop r (py_str c) a2 (e # es) had)
        = Inr (had \<or> a2 \<in> set (map snd (e # es)))"
      unfolding step using ih True by (simp add: e)
    have b: "hash_or_absent (fst (user_disconnect_loop r (py_str c) a2 (e # es) had)) (online_key c)"
      using ih by (simp add: step)
    have "online_list (fst (user_disconnect_loop r (py_str c) a2 (e # es) had)) c
        = filter (\<lambda>(h, v). (h, a2) \<notin> set es) (filter (\<lambda>(h, v). h \<noteq> sid) (online_list r c))"
      using ih by (simp add: step l2)
    also have "\<dots> = filter (\<lambda>(h, v). (h, a2) \<notin> set (e # es)) (online_list r c)"
      using True by (auto simp: e intro: filter_cong)
    finally have d: "online_list (fst (user_disconnect_loop r (py_str c) a2 (e # es) had)) c
        = filter (\<lambda>(h, v). (h, a2) \<notin> set (e # es)) (online_list r c)" .
    have f: "fst (user_disconnect_loop r (py_str c) a2 (e # es) had) k
             = (if k \<in> session_key c ` {h. (h, a2) \<in> set (e # es)} then None else r k)"
      if "k \<noteq> online_key c" for k
    proof -
      have "fst (user_disconnect_loop r (py_str c) a2 (e # es) had) k
          = (if k \<in> session_key c ` {h. (h, a2) \<in> set es} then None else r2 k)"
        using ih that by (simp add: step)
      then show ?thesis
        using True that by (auto simp: f2 e)
    qed
    show ?thesis
      using a b d f by blast
  qed
qed

lemma ud_nonempty:
  assumes ho: "hash_or_absent r (online_key c)" and st: "set_or_absent r (typing_key c)"
    and ne: "online_list r c \<noteq> []"
  shows "user_disconnect r c uid un =
     (after (fst (user_disconnect_loop r (py_str c) (py_str uid) (online_list r c) False))
        (map_sum id fst
           (redis_srem (fst (user_disconnect_loop r (py_str c) (py_str uid) (online_list r c) False))
              (typing_key c) (py_str un))),
      Inr (py_str uid \<in> set (map snd (online_list r c))))"
proof -
  define r1 where "r1 = fst (user_disconnect_loop r (py_str c) (py_str uid) (online_list r c) False)"
  define r2 where "r2 = after r1 (map_sum id fst (redis_srem r1 (typing_key c) (py_str un)))"
  note l = udl [OF ho, of "py_str uid" "online_list r c" False]
  have loop: "user_disconnect_loop r (py_str c) (py_str uid) (online_list r c) False
      = (r1, Inr (py_str uid \<in> set (map snd (online_list r c))))"
    using l by (simp add: r1_def prod_eq_iff)
  have "r1 (typing_key c) = r (typing_key c)"
    using l by (auto simp: r1_def)
  then have "set_or_absent r1 (typing_key c)"
    using st by (simp add: set_or_absent_def)
  then obtain n where srem: "redis_srem r1 (typing_key c) (py_str un) = Inr (r2, n)"
    unfolding r2_def using srem_ok by blast
  have "user_disconnect r c uid un = (r2, Inr (py_str uid \<in> set (map snd (online_list r c))))"
    using ne
    by (simp add: user_disconnect_def user_disconnect_script_def chat_keys hgetall_online [OF ho]
        loop srem del: append.simps)
  then show ?thesis
    by (simp add: r2_def r1_def)
qed

text \<open>
  When somebody is online in the chat, \<open>user_disconnect\<close> does all of it: it returns
  True exactly when the user owned a socket, the user owns none afterwards, the session
  keys of the user's sockets are gone, the other entries of the online map stay, and the
  user number is out of the typing set.
\<close>

theorem user_disconnect_somebody_online:
  assumes ho: "hash_or_absent r (online_key c)" and st: "set_or_absent r (typing_key c)"
    and ne: "online_list r c \<noteq> []"
  shows "snd (user_disconnect r c uid un) = Inr (handles_of r c (py_str uid) \<noteq> [])
     \<and> handles_of (fst (user_disconnect r c uid un)) c (py_str uid) = []
     \<and> online_list (fst (user_disconnect r c uid un)) c
         = filter (\<lambda>(h, v). (h, py_str uid) \<notin> set (online_list r c)) (online_list r c)
     \<and> (distinct (map fst (online_list r c)) \<longrightarrow>
           online_list (fst (user_disconnect r c uid un)) c
             = filter (\<lambda>(h, v). v \<noteq> py_str uid) (online_list r c))
     \<and> (\<forall>h \<in> set (handles_of r c (py_str uid)).
           fst (user_disconnect r c uid un) (session_key c h) = None)
     \<and> typing_set (fst (user_disconnect r c uid un)) c = typing_set r c - {py_str un}"
proof -
  define r1 where "r1 = fst (user_disconnect_loop r (py_str c) (py_str uid) (online_list r c) False)"
  define r2 where "r2 = after r1 (map_sum id fst (redis_srem r1 (typing_key c) (py_str un)))"
  note l = udl [OF ho, of "py_str uid" "online_list r c" False, folded r1_def]
  have eq: "user_disconnect r c uid un = (r2, Inr (py_str uid \<in> set (map snd (online_list r c))))"
    by (simp add: ud_nonempty [OF ho st ne] r2_def r1_def)
  have res: "snd (user_disconnect r c uid un) = Inr (handles_of r c (py_str uid) \<noteq> [])"
    by (simp add: eq handles_of_empty)
  have k: "r2 (online_key c) = r1 (online_key c)"
    by (simp add: r2_def srem_other)
  have ol: "online_list r2 c = filter (\<lambda>(h, v). (h, py_str uid) \<notin> set (online_list r c)) (online_list r c)"
    using online_list_cong [of r2 c r1, OF k] l by simp
  have none: "handles_of r2 c (py_str uid) = []"
    by (auto simp: handles_of_def ol filter_empty_conv)
  have dist: "online_list r2 c = filter (\<lambda>(h, v). v \<noteq> py_str uid) (online_list r c)"
    if d: "distinct (map fst (online_list r c))"
  proof -
    have "\<And>h v. (h, v) \<in> set (online_list r c) \<Longrightarrow>
        ((h, py_str uid) \<notin> set (online_list r c)) = (v \<noteq> py_str uid)"
      using d by (metis eq_key_imp_eq_value)
    then show ?thesis
      unfolding ol by (auto intro: filter_cong)
  qed
  have sess: "r2 (session_key c h) = None" if "h \<in> set (handles_of r c (py_str uid))" for h
  proof -
    have "(h, py_str uid) \<in> set (online_list r c)"
      using that by (auto simp: handles_of_def)
    then have "r1 (session_key c h) = None"
      using l by auto
    then show ?thesis
      by (simp add: r2_def srem_other)
  qed
  have "r1 (typing_key c) = r (typing_key c)"
    using l by auto
  then have t1: "set_or_absent r1 (typing_key c)" and t2: "typing_set r1 c = typing_set r c"
    using st by (simp_all add: set_or_absent_def typing_set_def)
  have ty: "typing_set r2 c = typing_set r c - {py_str un}"
    unfolding r2_def using srem_typing [OF t1] t2 by simp
  show ?thesis
    using res none ol dist sess ty by (simp add: eq)
qed

text \<open>
  C7.  What the code does where the claim promises that the user number leaves the
  typing set.  In a chat with nobody online and number 3 typing, \<open>user_disconnect\<close>
  returns False and number 3 is still typing: the script returns before its SREM.  With
  somebody else online the same call does remove number 3, and so does
  \<open>socket_disconnect\<close> in the chat with nobody online.
\<close>

theorem user_disconnect_empty_room_keeps_typing:
  "snd (user_disconnect (Map.empty(typing_key 1 \<mapsto> (RSet {''3''}, None))) 1 5 3) = Inr False
   \<and> typing_set (fst (user_disconnect (Map.empty(typing_key 1 \<mapsto> (RSet {''3''}, None))) 1 5 3)) 1 = {''3''}
   \<and> snd (user_disconnect (Map.empty(typing_key 1 \<mapsto> (RSet {''3''}, None),
                                        online_key 1 \<mapsto> (RHash [(''h9'', ''7'')], None))) 1 5 3) = Inr False
   \<and> typing_set (fst (user_disconnect (Map.empty(typing_key 1 \<mapsto> (RSet {''3''}, None),
                                        online_key 1 \<mapsto> (RHash [(''h9'', ''7'')], None))) 1 5 3)) 1 = {}
   \<and> typing_set (fst (socket_disconnect (Map.empty(typing_key 1 \<mapsto> (RSet {''3''}, None))) 1 ''h1'' 3)) 1 = {}"
  by code_simp

end
